theory Spec2Isabelle
  imports Complex_Main "HOL-Library.Log_Nat"
begin

section \<open>JavaScript numbers\<close>

text \<open>
  The guardrails SDK is TypeScript; every \<^verbatim>\<open>number\<close> in it is an IEEE 754 binary64
  value. A finite one is carried here by the rational it denotes. An arithmetic operation
  computes the exact result and rounds it to the nearest representable value, ties going to
  the even significand (\<open>rnd\<close>); results of magnitude \<open>2 ^ 1024\<close> or more become
  infinite. The two zeros are identified: the program adds, multiplies, compares, prints
  and tests numbers for truthiness, and none of these tells \<^verbatim>\<open>-0\<close> from \<^verbatim>\<open>+0\<close>.
\<close>

datatype number = NaN | Infinity | NegInfinity | Finite rat

definition pow2 :: "int \<Rightarrow> rat" where
  "pow2 e = (if 0 \<le> e then 2 ^ nat e else 1 / 2 ^ nat (- e))"

definition pow10 :: "int \<Rightarrow> rat" where
  "pow10 e = (if 0 \<le> e then 10 ^ nat e else 1 / 10 ^ nat (- e))"

definition ilog :: "nat \<Rightarrow> rat \<Rightarrow> int" where
  \<comment> \<open>for \<open>0 < a\<close>: the exponent \<open>e\<close> with \<open>b ^ e \<le> a < b ^ (e + 1)\<close>\<close>
  "ilog b a = (if 1 \<le> a then int (floorlog b (nat \<lfloor>a\<rfloor>)) - 1
               else - int (floorlog b (nat \<lceil>1 / a\<rceil> - 1)))"

definition round_even :: "rat \<Rightarrow> int" where
  "round_even x =
     (if x - of_int \<lfloor>x\<rfloor> < 1 / 2 then \<lfloor>x\<rfloor>
      else if 1 / 2 < x - of_int \<lfloor>x\<rfloor> then \<lfloor>x\<rfloor> + 1
      else if even \<lfloor>x\<rfloor> then \<lfloor>x\<rfloor> else \<lfloor>x\<rfloor> + 1)"

definition quantum :: "rat \<Rightarrow> int" where
  \<comment> \<open>exponent of the last place of a 53-bit significand; subnormal below \<open>2 ^ - 1022\<close>\<close>
  "quantum a = max (ilog 2 a) (- 1022) - 52"

definition round_mag :: "rat \<Rightarrow> rat" where
  "round_mag a = of_int (round_even (a / pow2 (quantum a))) * pow2 (quantum a)"

definition rnd :: "rat \<Rightarrow> number" where
  "rnd x = (if x = 0 then Finite 0
            else if pow2 1024 \<le> round_mag \<bar>x\<bar> then (if 0 < x then Infinity else NegInfinity)
            else Finite (if 0 < x then round_mag \<bar>x\<bar> else - round_mag \<bar>x\<bar>))"

fun fadd :: "number \<Rightarrow> number \<Rightarrow> number" where
  "fadd NaN _ = NaN"
| "fadd _ NaN = NaN"
| "fadd Infinity NegInfinity = NaN"
| "fadd NegInfinity Infinity = NaN"
| "fadd Infinity _ = Infinity"
| "fadd _ Infinity = Infinity"
| "fadd NegInfinity _ = NegInfinity"
| "fadd _ NegInfinity = NegInfinity"
| "fadd (Finite a) (Finite b) = rnd (a + b)"

fun fneg :: "number \<Rightarrow> number" where
  "fneg NaN = NaN"
| "fneg Infinity = NegInfinity"
| "fneg NegInfinity = Infinity"
| "fneg (Finite a) = Finite (- a)"

definition fsub :: "number \<Rightarrow> number \<Rightarrow> number" where
  "fsub x y = fadd x (fneg y)"

fun fsgn :: "number \<Rightarrow> int" where
  "fsgn NaN = 0"
| "fsgn Infinity = 1"
| "fsgn NegInfinity = - 1"
| "fsgn (Finite a) = (if 0 < a then 1 else if a < 0 then - 1 else 0)"

fun fmul :: "number \<Rightarrow> number \<Rightarrow> number" where
  "fmul NaN _ = NaN"
| "fmul _ NaN = NaN"
| "fmul (Finite a) (Finite b) = rnd (a * b)"
| "fmul x y = (if fsgn x * fsgn y = 0 then NaN
               else if 0 < fsgn x * fsgn y then Infinity else NegInfinity)"

fun fle :: "number \<Rightarrow> number \<Rightarrow> bool" where
  \<comment> \<open>the operator \<^verbatim>\<open><=\<close>: false as soon as one side is \<^verbatim>\<open>NaN\<close>\<close>
  "fle NaN _ = False"
| "fle _ NaN = False"
| "fle NegInfinity _ = True"
| "fle _ Infinity = True"
| "fle Infinity _ = False"
| "fle _ NegInfinity = False"
| "fle (Finite a) (Finite b) = (a \<le> b)"

section \<open>Numbers and strings\<close>

text \<open>
  A string is the list of its code units; the ones the program inspects (digits, signs,
  the unit letters, white space) are all below 256.

  \<^verbatim>\<open>parseFloat\<close> skips leading white space and reads the longest prefix that is a
  \<^verbatim>\<open>StrDecimalLiteral\<close>: an optional sign, then \<^verbatim>\<open>Infinity\<close> or decimal digits with an
  optional fraction and an optional exponent. It never throws: without such a prefix the
  result is \<^verbatim>\<open>NaN\<close>. The literal's exact value is \<open>literal_value\<close>; the result is that
  value rounded to binary64. (Past the twentieth significant digit the language standard
  lets an implementation round less exactly, here and in \<^verbatim>\<open>parseInt\<close>; the engines round
  correctly, and so does the model.)
\<close>

definition is_digit :: "char \<Rightarrow> bool" where
  "is_digit c = (c \<in> set ''0123456789'')"

definition digit_val :: "char \<Rightarrow> nat" where
  "digit_val c = of_char c - 48"

definition dec_value :: "string \<Rightarrow> nat" where
  "dec_value ds = foldl (\<lambda>n c. 10 * n + digit_val c) 0 ds"

definition is_ws :: "char \<Rightarrow> bool" where
  \<comment> \<open>tab, line feed, vertical tab, form feed, carriage return, space, no-break space\<close>
  "is_ws c = (of_char c \<in> {9, 10, 11, 12, 13, 32, 160 :: nat})"

definition int_part :: "string \<Rightarrow> string" where
  "int_part u = takeWhile is_digit u"

definition after_int :: "string \<Rightarrow> string" where
  "after_int u = dropWhile is_digit u"

definition has_point :: "string \<Rightarrow> bool" where
  "has_point u = (case after_int u of [] \<Rightarrow> False | c # r \<Rightarrow> c = CHR ''.'')"

definition frac_part :: "string \<Rightarrow> string" where
  "frac_part u = (if has_point u then takeWhile is_digit (tl (after_int u)) else [])"

definition after_frac :: "string \<Rightarrow> string" where
  "after_frac u = (if has_point u then dropWhile is_digit (tl (after_int u)) else after_int u)"

definition signed_integer :: "string \<Rightarrow> int" where
  "signed_integer r =
     (case r of [] \<Rightarrow> 0
      | c # ds \<Rightarrow> if c = CHR ''-'' then - int (dec_value (takeWhile is_digit ds))
                 else if c = CHR ''+'' then int (dec_value (takeWhile is_digit ds))
                 else int (dec_value (takeWhile is_digit r)))"

definition exponent_part :: "string \<Rightarrow> int" where
  \<comment> \<open>the value of an \<^verbatim>\<open>ExponentPart\<close> at the head of the string, 0 when there is none\<close>
  "exponent_part r =
     (case r of [] \<Rightarrow> 0
      | c # r' \<Rightarrow> if c = CHR ''e'' \<or> c = CHR ''E'' then signed_integer r' else 0)"

definition literal_value :: "string \<Rightarrow> rat" where
  "literal_value u =
     of_nat (dec_value (int_part u @ frac_part u))
     * pow10 (exponent_part (after_frac u) - int (length (frac_part u)))"

definition parse_unsigned :: "string \<Rightarrow> number" where
  "parse_unsigned u =
     (if take 8 u = ''Infinity'' then Infinity
      else if int_part u = [] \<and> frac_part u = [] then NaN
      else rnd (literal_value u))"

definition parse_signed :: "string \<Rightarrow> number" where
  "parse_signed t =
     (case t of [] \<Rightarrow> NaN
      | c # r \<Rightarrow> if c = CHR ''-'' then fneg (parse_unsigned r)
                else if c = CHR ''+'' then parse_unsigned r
                else parse_unsigned t)"

definition parseFloat :: "string \<Rightarrow> number" where
  "parseFloat s = parse_signed (dropWhile is_ws s)"

text \<open>
  \<^verbatim>\<open>String(x)\<close> of a number prints the fewest significant digits \<open>k\<close> that read back as
  \<open>x\<close>: integers \<open>s\<close> and \<open>n\<close> with \<open>10 ^ (k - 1) \<le> s < 10 ^ k\<close> such that
  \<open>s * 10 ^ (n - k)\<close> rounds to \<open>x\<close>, the \<open>s\<close> closest to \<open>x\<close> when several qualify. The
  digits are laid out in positional notation for \<open>- 6 < n \<le> 21\<close> and in exponent notation
  otherwise. Seventeen digits always suffice for a binary64 value.
\<close>

fun dec_string :: "nat \<Rightarrow> string" where
  "dec_string n = (if n < 10 then [''0123456789'' ! n]
                   else dec_string (n div 10) @ [''0123456789'' ! (n mod 10)])"

declare dec_string.simps [simp del]

definition cand_ok :: "rat \<Rightarrow> nat \<Rightarrow> int \<times> nat \<Rightarrow> bool" where
  \<comment> \<open>the candidate \<open>(n, s)\<close> has \<open>k\<close> digits and reads back as \<open>x\<close>\<close>
  "cand_ok x k c = (10 ^ (k - 1) \<le> snd c \<and> snd c < 10 ^ k
                    \<and> rnd (of_nat (snd c) * pow10 (fst c - int k)) = Finite x)"

definition cand_dist :: "rat \<Rightarrow> nat \<Rightarrow> int \<times> nat \<Rightarrow> rat" where
  "cand_dist x k c = \<bar>of_nat (snd c) * pow10 (fst c - int k) - x\<bar>"

definition better :: "rat \<Rightarrow> nat \<Rightarrow> int \<times> nat \<Rightarrow> int \<times> nat \<Rightarrow> int \<times> nat" where
  \<comment> \<open>the candidate closer to \<open>x\<close>; of two at the same distance, the even one\<close>
  "better x k c d = (if cand_dist x k d < cand_dist x k c then d
                     else if cand_dist x k c < cand_dist x k d then c
                     else if even (snd c) then c else d)"

fun closest :: "rat \<Rightarrow> nat \<Rightarrow> (int \<times> nat) list \<Rightarrow> (int \<times> nat) option" where
  "closest x k [] = None"
| "closest x k (c # cs) =
     (case closest x k cs of None \<Rightarrow> Some c | Some d \<Rightarrow> Some (better x k c d))"

definition candidates :: "rat \<Rightarrow> nat \<Rightarrow> (int \<times> nat) list" where
  \<comment> \<open>the \<open>k\<close>-digit decimals next to \<open>x\<close>: below, above, and the power of ten above\<close>
  "candidates x k =
     [(ilog 10 x + 1, nat \<lfloor>x / pow10 (ilog 10 x + 1 - int k)\<rfloor>),
      (ilog 10 x + 1, nat \<lfloor>x / pow10 (ilog 10 x + 1 - int k)\<rfloor> + 1),
      (ilog 10 x + 2, 10 ^ (k - 1))]"

function shortest :: "rat \<Rightarrow> nat \<Rightarrow> nat \<times> int \<times> nat" where
  "shortest x k =
     (if 21 \<le> k then (k, ilog 10 x + 1, nat \<lfloor>x / pow10 (ilog 10 x + 1 - int k)\<rfloor>)
      else case closest x k (filter (cand_ok x k) (candidates x k)) of
             Some c \<Rightarrow> (k, c)
           | None \<Rightarrow> shortest x (Suc k))"
  by pat_completeness auto
termination
  by (relation "measure (\<lambda>(x, k). 21 - k)") auto

declare shortest.simps [simp del]

definition layout :: "nat \<Rightarrow> int \<Rightarrow> string \<Rightarrow> string" where
  "layout k n ds =
     (if int k \<le> n \<and> n \<le> 21 then ds @ replicate (nat (n - int k)) CHR ''0''
      else if 0 < n \<and> n \<le> 21 then take (nat n) ds @ ''.'' @ drop (nat n) ds
      else if - 6 < n \<and> n \<le> 0 then ''0.'' @ replicate (nat (- n)) CHR ''0'' @ ds
      else (if k = 1 then ds else take 1 ds @ ''.'' @ drop 1 ds)
           @ ''e'' @ (if n - 1 < 0 then ''-'' else ''+'') @ dec_string (nat \<bar>n - 1\<bar>))"

definition positive_to_string :: "rat \<Rightarrow> string" where
  "positive_to_string x =
     (case shortest x 1 of (k, n, s) \<Rightarrow> layout k n (dec_string s))"

fun number_to_string :: "number \<Rightarrow> string" where
  "number_to_string NaN = ''NaN''"
| "number_to_string Infinity = ''Infinity''"
| "number_to_string NegInfinity = ''-Infinity''"
| "number_to_string (Finite x) =
     (if x = 0 then ''0''
      else if x < 0 then ''-'' @ positive_to_string (- x)
      else positive_to_string x)"

section \<open>JavaScript values\<close>

text \<open>
  Parameter bags, constraint mappings, metadata, the mapping from assets to limits and
  the mapping from ids to agents are plain objects: written as object literals or read by
  \<^verbatim>\<open>JSON.parse\<close>, with \<^verbatim>\<open>Object.prototype\<close> as their prototype. An object is the list of
  its own properties. The values a \<^verbatim>\<open>Record<string, any>\<close> holds are modelled for the
  primitive types.
\<close>

datatype jsval = JUndefined | JNull | JBool bool | JNum number | JStr string

type_synonym jsobject = "(string \<times> jsval) list"

text \<open>
  Reading a property that the object does not have itself goes on to
  \<^verbatim>\<open>Object.prototype\<close>. That object has twelve members: \<^verbatim>\<open>constructor\<close>, which is the
  function \<^verbatim>\<open>Object\<close>, ten methods, and the accessor \<^verbatim>\<open>__proto__\<close>, which gives
  \<^verbatim>\<open>Object.prototype\<close> itself. Only a key that is found neither in the object nor there
  reads as \<^verbatim>\<open>undefined\<close>. So an expression has a primitive value or is one of these
  built-in objects, which are all truthy; their string forms are those of Node.js, on
  which the package runs.
\<close>

datatype builtin = ObjectConstructor | ObjectMethod string | ObjectPrototype

definition object_prototype :: "(string \<times> builtin) list" where
  "object_prototype =
     [(''constructor'', ObjectConstructor), (''__proto__'', ObjectPrototype)]
     @ map (\<lambda>n. (n, ObjectMethod n))
         [''__defineGetter__'', ''__defineSetter__'', ''hasOwnProperty'',
          ''__lookupGetter__'', ''__lookupSetter__'', ''isPrototypeOf'',
          ''propertyIsEnumerable'', ''toString'', ''valueOf'', ''toLocaleString'']"

datatype 'a property = Own 'a | Inherited builtin | Absent

definition read_property :: "(string \<times> 'a) list \<Rightarrow> string \<Rightarrow> 'a property" where
  \<comment> \<open>\<^verbatim>\<open>obj[key]\<close> on a plain object\<close>
  "read_property obj key =
     (case map_of obj key of
        Some v \<Rightarrow> Own v
      | None \<Rightarrow> (case map_of object_prototype key of
                   Some m \<Rightarrow> Inherited m
                 | None \<Rightarrow> Absent))"

datatype jsany = Prim jsval | Builtin builtin

definition get :: "jsobject \<Rightarrow> string \<Rightarrow> jsany" where
  "get obj key =
     (case read_property obj key of
        Own v \<Rightarrow> Prim v
      | Inherited m \<Rightarrow> Builtin m
      | Absent \<Rightarrow> Prim JUndefined)"

fun truthy :: "jsany \<Rightarrow> bool" where
  "truthy (Prim JUndefined) = False"
| "truthy (Prim JNull) = False"
| "truthy (Prim (JBool b)) = b"
| "truthy (Prim (JNum n)) = (n \<noteq> NaN \<and> n \<noteq> Finite 0)"
| "truthy (Prim (JStr s)) = (s \<noteq> [])"
| "truthy (Builtin m) = True"

definition js_or :: "jsany \<Rightarrow> jsany \<Rightarrow> jsany" where
  "js_or a b = (if truthy a then a else b)"

fun js_String :: "jsany \<Rightarrow> string" where
  "js_String (Prim JUndefined) = ''undefined''"
| "js_String (Prim JNull) = ''null''"
| "js_String (Prim (JBool b)) = (if b then ''true'' else ''false'')"
| "js_String (Prim (JNum n)) = number_to_string n"
| "js_String (Prim (JStr s)) = s"
| "js_String (Builtin ObjectConstructor) = ''function Object() { [native code] }''"
| "js_String (Builtin (ObjectMethod n)) = ''function '' @ n @ ''() { [native code] }''"
| "js_String (Builtin ObjectPrototype) = ''[object Object]''"

definition strict_eq :: "jsany \<Rightarrow> jsany \<Rightarrow> bool" where
  \<comment> \<open>the operator \<^verbatim>\<open>===\<close>: \<^verbatim>\<open>NaN\<close> equals nothing, a built-in object only itself\<close>
  "strict_eq a b = (a = b \<and> a \<noteq> Prim (JNum NaN))"

text \<open>
  What \<^verbatim>\<open>JSON.parse(JSON.stringify(obj))\<close> gives back: properties whose value is
  \<^verbatim>\<open>undefined\<close> are left out, and a number that is not finite is written \<^verbatim>\<open>null\<close>.
\<close>

fun json_value :: "jsval \<Rightarrow> jsval" where
  "json_value (JNum NaN) = JNull"
| "json_value (JNum Infinity) = JNull"
| "json_value (JNum NegInfinity) = JNull"
| "json_value v = v"

definition json_object :: "jsobject \<Rightarrow> jsobject" where
  "json_object obj =
     map (\<lambda>(k, v). (k, json_value v)) (filter (\<lambda>(k, v). v \<noteq> JUndefined) obj)"

section \<open>The data model (types.ts)\<close>

text \<open>
  A log entry's \<^verbatim>\<open>timestamp\<close> is a string; the program only ever passes it to
  \<^verbatim>\<open>new Date(...)\<close>. The field holds the time value that constructor computes from it, in
  milliseconds since the epoch, and \<open>None\<close> for a string that is no date (the
  \<^verbatim>\<open>Invalid Date\<close>, whose time value is \<^verbatim>\<open>NaN\<close>).
\<close>

record LimitConfig =
  asset :: string
  amount :: string
  window_seconds :: number

record AllowRule =
  action_type :: string
  constraints :: jsobject

record AgentConfig =
  agent_id :: string
  wallet :: string
  name :: "string option"
  metadata :: jsobject
  limits :: "(string \<times> LimitConfig) list"
  allow_rules :: "AllowRule list"

record LogEntry =
  timestamp :: "int option"
  entry_agent_id :: string
  entry_action_type :: string
  params :: jsobject
  allowed :: bool
  reason :: "string option"

record StorageData =
  agents :: "(string \<times> AgentConfig) list"
  logs :: "LogEntry list"

text \<open>
  Every \<^verbatim>\<open>throw\<close> of the program raises a plain \<^verbatim>\<open>Error\<close>; they are told apart here by
  the place that raises them. \<open>message\<close> is the error's \<^verbatim>\<open>message\<close> property.
\<close>

datatype error =
    InvalidTimeWindow string
  | UnknownTimeUnit string
  | AgentNotFound string
  | IOError string

fun message :: "error \<Rightarrow> string" where
  "message (InvalidTimeWindow w) =
     ''Invalid time window format: '' @ [CHR 0x27] @ w @ [CHR 0x27]
     @ ''. Expected format: <number><h|d> (e.g., '' @ [CHR 0x27] @ ''24h'' @ [CHR 0x27]
     @ '', '' @ [CHR 0x27] @ ''7d'' @ [CHR 0x27] @ '')''"
| "message (UnknownTimeUnit u) = ''Unknown time unit: '' @ u"
| "message (AgentNotFound a) = ''Agent '' @ a @ '' not found in storage''"
| "message (IOError m) = m"

section \<open>The JSON file store (storage.ts)\<close>

text \<open>
  \<open>content\<close> is what \<^verbatim>\<open>readData\<close> finds: the parsed document, or the message of the
  exception that \<^verbatim>\<open>fs.readFileSync\<close> or \<^verbatim>\<open>JSON.parse\<close> throws (a missing, unreadable or
  corrupt file). \<open>write_error\<close> is the message of the exception \<^verbatim>\<open>fs.writeFileSync\<close>
  throws, if it does. A document read from the file is JSON already, so of all that
  \<^verbatim>\<open>appendLog\<close> writes back only the new entry changes on its way through
  \<^verbatim>\<open>JSON.stringify\<close>.
\<close>

record JsonFileStorage =
  content :: "string + StorageData"
  write_error :: "string option"

definition readData :: "JsonFileStorage \<Rightarrow> error + StorageData" where
  "readData st = (case content st of Inl m \<Rightarrow> Inl (IOError m) | Inr d \<Rightarrow> Inr d)"

definition writeData :: "JsonFileStorage \<Rightarrow> StorageData \<Rightarrow> error + JsonFileStorage" where
  "writeData st d = (case write_error st of Some m \<Rightarrow> Inl (IOError m)
                     | None \<Rightarrow> Inr (st\<lparr>content := Inr d\<rparr>))"

text \<open>
  \<^verbatim>\<open>loadAgent\<close> is only ever given the id of an agent, which is the UUID that
  \<^verbatim>\<open>Agent.register\<close> drew for it and so never the name of a member of
  \<^verbatim>\<open>Object.prototype\<close>: \<^verbatim>\<open>data.agents[agentId]\<close> is the agent's own entry or
  \<^verbatim>\<open>undefined\<close>.
\<close>

definition loadAgent :: "JsonFileStorage \<Rightarrow> string \<Rightarrow> error + AgentConfig option" where
  "loadAgent st agentId =
     (case readData st of Inl e \<Rightarrow> Inl e | Inr d \<Rightarrow> Inr (map_of (agents d) agentId))"

definition json_entry :: "LogEntry \<Rightarrow> LogEntry" where
  "json_entry e = e\<lparr>params := json_object (params e)\<rparr>"

definition appendLog :: "JsonFileStorage \<Rightarrow> LogEntry \<Rightarrow> error + JsonFileStorage" where
  "appendLog st logEntry =
     (case readData st of Inl e \<Rightarrow> Inl e
      | Inr d \<Rightarrow> writeData st (d\<lparr>logs := logs d @ [json_entry logEntry]\<rparr>))"

definition slice_last :: "int \<Rightarrow> 'a list \<Rightarrow> 'a list" where
  \<comment> \<open>\<^verbatim>\<open>logs.slice(-limit)\<close> for a positive \<^verbatim>\<open>limit\<close>\<close>
  "slice_last n xs = drop (length xs - nat n) xs"

definition getLogs :: "JsonFileStorage \<Rightarrow> string \<Rightarrow> int option \<Rightarrow> error + LogEntry list" where
  "getLogs st agentId limit =
     (case readData st of Inl e \<Rightarrow> Inl e
      | Inr d \<Rightarrow>
          Inr ((case limit of None \<Rightarrow> id | Some n \<Rightarrow> if 0 < n then slice_last n else id)
                 (if agentId \<noteq> []
                  then filter (\<lambda>entry. entry_agent_id entry = agentId) (logs d)
                  else logs d)))"

section \<open>The policy functions (policies.ts)\<close>

text \<open>
  The pattern of \<^verbatim>\<open>parseTimeWindow\<close> (anchored at both ends, case-insensitive) matches one
  or more ASCII digits followed by one of the letters \<^verbatim>\<open>h\<close>, \<^verbatim>\<open>d\<close>, \<^verbatim>\<open>H\<close>, \<^verbatim>\<open>D\<close>, and
  nothing else. \<^verbatim>\<open>parseInt(digits, 10)\<close> is the digits'
  value rounded to binary64. \<^verbatim>\<open>toLowerCase\<close> is applied to the matched unit letter only.
\<close>

definition window_match :: "string \<Rightarrow> (string \<times> char) option" where
  "window_match w =
     (if w \<noteq> [] \<and> butlast w \<noteq> [] \<and> list_all is_digit (butlast w) \<and> last w \<in> set ''hdHD''
      then Some (butlast w, last w) else None)"

definition toLowerCase :: "char \<Rightarrow> char" where
  "toLowerCase c =
     (case map_of (zip ''ABCDEFGHIJKLMNOPQRSTUVWXYZ'' ''abcdefghijklmnopqrstuvwxyz'') c of
        None \<Rightarrow> c | Some l \<Rightarrow> l)"

definition parseInt10 :: "string \<Rightarrow> number" where
  "parseInt10 ds = rnd (of_nat (dec_value ds))"

definition parseTimeWindow :: "string \<Rightarrow> error + number" where
  "parseTimeWindow w =
     (case window_match w of
        None \<Rightarrow> Inl (InvalidTimeWindow w)
      | Some (ds, u) \<Rightarrow>
          if toLowerCase u = CHR ''h'' then Inr (fmul (parseInt10 ds) (Finite 3600))
          else if toLowerCase u = CHR ''d'' then Inr (fmul (parseInt10 ds) (Finite 86400))
          else Inl (UnknownTimeUnit [toLowerCase u]))"

fun constraintsHold :: "jsobject \<Rightarrow> jsobject \<Rightarrow> bool" where
  \<comment> \<open>the loop of \<^verbatim>\<open>ruleMatches\<close> over \<^verbatim>\<open>Object.entries(rule.constraints)\<close>\<close>
  "constraintsHold [] ps = True"
| "constraintsHold ((key, expectedValue) # cs) ps =
     (if js_String (get ps key) \<noteq> js_String (Prim expectedValue) then False
      else constraintsHold cs ps)"

definition ruleMatches :: "AllowRule \<Rightarrow> jsobject \<Rightarrow> bool" where
  "ruleMatches rule ps =
     (if length (constraints rule) = 0 then True else constraintsHold (constraints rule) ps)"

fun anyRuleMatches :: "AllowRule list \<Rightarrow> jsobject \<Rightarrow> bool" where
  \<comment> \<open>the loop of \<^verbatim>\<open>isActionAllowedByRules\<close> over the relevant rules\<close>
  "anyRuleMatches [] ps = False"
| "anyRuleMatches (rule # rules) ps =
     (if ruleMatches rule ps then True else anyRuleMatches rules ps)"

definition isActionAllowedByRules :: "string \<Rightarrow> jsobject \<Rightarrow> AllowRule list \<Rightarrow> bool" where
  "isActionAllowedByRules actionType ps rules =
     (if length (filter (\<lambda>r. action_type r = actionType) rules) = 0 then False
      else anyRuleMatches (filter (\<lambda>r. action_type r = actionType) rules) ps)"

text \<open>
  \<^verbatim>\<open>new Date(t)\<close> keeps a finite \<^verbatim>\<open>t\<close> of magnitude at most \<open>8.64 * 10 ^ 15\<close>, cut to an
  integer; any other \<^verbatim>\<open>t\<close> gives the \<^verbatim>\<open>Invalid Date\<close>. Comparing two dates with \<^verbatim>\<open><\<close>
  compares their time values, and is false as soon as one is invalid. \<open>now\<close> is the time
  value of \<^verbatim>\<open>new Date()\<close>, always a valid one.

  The first argument of \<^verbatim>\<open>isWithinLimits\<close> is declared a string, but \<^verbatim>\<open>authorize\<close> passes
  it whatever value the request carries under \<^verbatim>\<open>asset\<close> or \<^verbatim>\<open>token\<close>; the comparisons
  with \<^verbatim>\<open>!==\<close> and \<^verbatim>\<open>===\<close> are strict, so a value that is not a string never matches.
\<close>

definition time_clip :: "number \<Rightarrow> int option" where
  "time_clip t =
     (case t of
        Finite x \<Rightarrow> if \<bar>x\<bar> \<le> 8640000000000000
                    then Some (if 0 \<le> x then \<lfloor>x\<rfloor> else \<lceil>x\<rceil>) else None
      | _ \<Rightarrow> None)"

definition windowStart :: "int \<Rightarrow> number \<Rightarrow> int option" where
  "windowStart now ws = time_clip (fsub (Finite (of_int now)) (fmul ws (Finite 1000)))"

definition before :: "int option \<Rightarrow> int option \<Rightarrow> bool" where
  "before a b = (case a of None \<Rightarrow> False
                 | Some x \<Rightarrow> (case b of None \<Rightarrow> False | Some y \<Rightarrow> x < y))"

definition logAsset :: "LogEntry \<Rightarrow> jsany" where
  "logAsset entry = js_or (get (params entry) ''asset'') (get (params entry) ''token'')"

definition logAmount :: "LogEntry \<Rightarrow> jsany" where
  "logAmount entry = get (params entry) ''amount''"

fun totalSpent :: "jsany \<Rightarrow> int option \<Rightarrow> LogEntry list \<Rightarrow> number \<Rightarrow> number" where
  \<comment> \<open>the loop of \<^verbatim>\<open>isWithinLimits\<close> over \<^verbatim>\<open>allLogs\<close>; the last argument is \<^verbatim>\<open>totalSpent\<close>\<close>
  "totalSpent a start [] spent = spent"
| "totalSpent a start (entry # rest) spent =
     (if \<not> allowed entry then totalSpent a start rest spent
      else if before (timestamp entry) start then totalSpent a start rest spent
      else if strict_eq (logAsset entry) a
        then (if logAmount entry \<noteq> Prim JUndefined \<and> logAmount entry \<noteq> Prim JNull
              then totalSpent a start rest
                     (fadd spent (parseFloat (js_String (logAmount entry))))
              else totalSpent a start rest spent)
      else totalSpent a start rest spent)"

definition isWithinLimits ::
  "jsany \<Rightarrow> string \<Rightarrow> LimitConfig \<Rightarrow> JsonFileStorage \<Rightarrow> string \<Rightarrow> int \<Rightarrow> error + bool" where
  "isWithinLimits a amt limitCfg st agentId now =
     (if \<not> strict_eq a (Prim (JStr (asset limitCfg))) then Inr False
      else case getLogs st agentId None of
             Inl e \<Rightarrow> Inl e
           | Inr allLogs \<Rightarrow>
               Inr (fle (fadd (totalSpent a (windowStart now (window_seconds limitCfg))
                                 allLogs (Finite 0))
                              (parseFloat amt))
                        (parseFloat (amount limitCfg))))"

section \<open>The agent (agent.ts)\<close>

text \<open>
  A call returns \<open>Inr\<close> with its result and the agent it leaves behind, or \<open>Inl\<close> with
  the exception it throws and the agent at that moment. \<^verbatim>\<open>authorize\<close> reads the clock
  twice: \<open>now\<close> on entry, for the limit check, and \<open>stamp\<close> in \<^verbatim>\<open>logDecision\<close>, for the
  entry's timestamp, which \<^verbatim>\<open>toISOString\<close> and the removal of the milliseconds turn into the
  whole second at or before \<open>stamp\<close>.

  \<^verbatim>\<open>config.limits[asset]\<close> reads the property named by the string form of the asset.
  When the limits have no such property but \<^verbatim>\<open>Object.prototype\<close> has, the value read
  is that built-in object: it is truthy, so \<^verbatim>\<open>isWithinLimits\<close> is called with it as
  \<^verbatim>\<open>limitCfg\<close>; its \<^verbatim>\<open>asset\<close>, \<^verbatim>\<open>amount\<close> and \<^verbatim>\<open>window_seconds\<close> are
  \<^verbatim>\<open>undefined\<close>, the asset of the request is truthy and so not \<^verbatim>\<open>undefined\<close>, and
  \<^verbatim>\<open>isWithinLimits\<close> returns false from its first line; the request is denied with a
  reason that prints \<^verbatim>\<open>undefined\<close> for the maximum and for the window.
\<close>

record Agent =
  agentId :: string
  storage :: JsonFileStorage
  config :: "AgentConfig option"

definition loadConfig :: "Agent \<Rightarrow> (error \<times> Agent) + (AgentConfig \<times> Agent)" where
  "loadConfig ag =
     (case config ag of
        Some c \<Rightarrow> Inr (c, ag)
      | None \<Rightarrow>
          (case loadAgent (storage ag) (agentId ag) of
             Inl e \<Rightarrow> Inl (e, ag)
           | Inr None \<Rightarrow> Inl (AgentNotFound (agentId ag), ag)
           | Inr (Some c) \<Rightarrow> Inr (c, ag\<lparr>config := Some c\<rparr>)))"

definition logDecision ::
  "Agent \<Rightarrow> string \<Rightarrow> jsobject \<Rightarrow> bool \<Rightarrow> string option \<Rightarrow> int \<Rightarrow> (error \<times> Agent) + Agent" where
  "logDecision ag actionType ps v why stamp =
     (case appendLog (storage ag)
             \<lparr>timestamp = Some (1000 * (stamp div 1000)), entry_agent_id = agentId ag,
              entry_action_type = actionType, params = ps, allowed = v, reason = why\<rparr> of
        Inl e \<Rightarrow> Inl (e, ag)
      | Inr st \<Rightarrow> Inr (ag\<lparr>storage := st\<rparr>))"

definition decided ::
  "Agent \<Rightarrow> string \<Rightarrow> jsobject \<Rightarrow> bool \<Rightarrow> string option \<Rightarrow> int
     \<Rightarrow> (error \<times> Agent) + (bool \<times> Agent)" where
  \<comment> \<open>\<^verbatim>\<open>this.logDecision(actionType, params, v, why); return v;\<close>\<close>
  "decided ag actionType ps v why stamp =
     (case logDecision ag actionType ps v why stamp of
        Inl x \<Rightarrow> Inl x
      | Inr ag' \<Rightarrow> Inr (v, ag'))"

definition requestAsset :: "jsobject \<Rightarrow> jsany" where
  "requestAsset ps = js_or (get ps ''asset'') (get ps ''token'')"

definition exceedsReason :: "jsany \<Rightarrow> LimitConfig property \<Rightarrow> string" where
  "exceedsReason a limitCfg =
     ''Exceeds '' @ js_String a @ '' limit of ''
     @ (case limitCfg of Own l \<Rightarrow> amount l | _ \<Rightarrow> ''undefined'') @ '' per ''
     @ (case limitCfg of Own l \<Rightarrow> number_to_string (window_seconds l) | _ \<Rightarrow> ''undefined'')
     @ ''s''"

definition checkLimits ::
  "Agent \<Rightarrow> AgentConfig \<Rightarrow> string \<Rightarrow> jsobject \<Rightarrow> int \<Rightarrow> int
     \<Rightarrow> (error \<times> Agent) + (bool \<times> Agent)" where
  \<comment> \<open>the \<^verbatim>\<open>try\<close> block of \<^verbatim>\<open>authorize\<close> from \<^verbatim>\<open>Check 2\<close> on\<close>
  "checkLimits ag c actionType ps now stamp =
     (if truthy (get ps ''amount'') \<and> truthy (requestAsset ps)
      then (case read_property (limits c) (js_String (requestAsset ps)) of
              Absent \<Rightarrow> decided ag actionType ps True None stamp
            | Inherited m \<Rightarrow>
                decided ag actionType ps False
                  (Some (exceedsReason (requestAsset ps) (Inherited m))) stamp
            | Own limitCfg \<Rightarrow>
                (case isWithinLimits (requestAsset ps) (js_String (get ps ''amount'')) limitCfg
                        (storage ag) (agentId ag) now of
                   Inl e \<Rightarrow> Inl (e, ag)
                 | Inr ok \<Rightarrow>
                     if \<not> ok
                     then decided ag actionType ps False
                            (Some (exceedsReason (requestAsset ps) (Own limitCfg))) stamp
                     else decided ag actionType ps True None stamp))
      else decided ag actionType ps True None stamp)"

definition tryAuthorize ::
  "Agent \<Rightarrow> string \<Rightarrow> jsobject \<Rightarrow> int \<Rightarrow> int \<Rightarrow> (error \<times> Agent) + (bool \<times> Agent)" where
  \<comment> \<open>the \<^verbatim>\<open>try\<close> block of \<^verbatim>\<open>authorize\<close>\<close>
  "tryAuthorize ag actionType ps now stamp =
     (case loadConfig ag of
        Inl x \<Rightarrow> Inl x
      | Inr (c, ag') \<Rightarrow>
          if \<not> isActionAllowedByRules actionType ps (allow_rules c)
          then decided ag' actionType ps False (Some ''Action not in allowlist'') stamp
          else checkLimits ag' c actionType ps now stamp)"

definition authorize ::
  "Agent \<Rightarrow> string \<Rightarrow> jsobject \<Rightarrow> int \<Rightarrow> int \<Rightarrow> (error \<times> Agent) + (bool \<times> Agent)" where
  "authorize ag actionType ps now stamp =
     (case tryAuthorize ag actionType ps now stamp of
        Inr r \<Rightarrow> Inr r
      | Inl (e, ag') \<Rightarrow>
          decided ag' actionType ps False
            (Some (''Error during authorization: '' @ message e)) stamp)"

section \<open>What the claims speak about\<close>

text \<open>
  \<open>verdict\<close> is the boolean a call of \<^verbatim>\<open>authorize\<close> returns, \<open>None\<close> when it throws;
  \<open>agentAfter\<close> is the agent the call leaves behind; \<open>storedLogs\<close> is the decision log
  in an agent's store; \<open>decisionEntry\<close> is the entry
  \<^verbatim>\<open>logDecision\<close> leaves on disk.
\<close>

definition verdict :: "(error \<times> Agent) + (bool \<times> Agent) \<Rightarrow> bool option" where
  "verdict r = (case r of Inl _ \<Rightarrow> None | Inr (v, _) \<Rightarrow> Some v)"

definition agentAfter :: "(error \<times> Agent) + (bool \<times> Agent) \<Rightarrow> Agent" where
  "agentAfter r = (case r of Inl (e, ag) \<Rightarrow> ag | Inr (v, ag) \<Rightarrow> ag)"

definition storedLogs :: "Agent \<Rightarrow> LogEntry list" where
  "storedLogs ag = (case content (storage ag) of Inl _ \<Rightarrow> [] | Inr d \<Rightarrow> logs d)"

definition decisionEntry ::
  "Agent \<Rightarrow> string \<Rightarrow> jsobject \<Rightarrow> bool \<Rightarrow> string option \<Rightarrow> int \<Rightarrow> LogEntry" where
  "decisionEntry ag actionType ps v why stamp =
     \<lparr>timestamp = Some (1000 * (stamp div 1000)), entry_agent_id = agentId ag,
      entry_action_type = actionType, params = json_object ps, allowed = v, reason = why\<rparr>"

text \<open>
  \<open>limitCheck\<close> says whether \<^verbatim>\<open>Check 2\<close> of \<^verbatim>\<open>authorize\<close> lets a request through: it
  does unless the request carries a truthy amount and a truthy asset-or-token,
  \<^verbatim>\<open>config.limits[asset]\<close> is truthy, and \<^verbatim>\<open>isWithinLimits\<close> does not return true.
\<close>

definition limitCheck :: "AgentConfig \<Rightarrow> JsonFileStorage \<Rightarrow> string \<Rightarrow> jsobject \<Rightarrow> int \<Rightarrow> bool" where
  "limitCheck c st aid ps now =
     (if truthy (get ps ''amount'') \<and> truthy (requestAsset ps)
      then (case read_property (limits c) (js_String (requestAsset ps)) of
              Absent \<Rightarrow> True
            | Inherited m \<Rightarrow> False
            | Own limitCfg \<Rightarrow>
                isWithinLimits (requestAsset ps) (js_String (get ps ''amount'')) limitCfg
                  st aid now = Inr True)
      else True)"

text \<open>
  What the loop of \<^verbatim>\<open>isWithinLimits\<close> computes when every timestamp of the history is a
  date: \<open>counted\<close> are the entries it does not pass over, \<open>loopSpend\<close> is the value it
  leaves in \<^verbatim>\<open>totalSpent\<close>, and \<open>wholeSpend\<close> is that value counted in the natural
  numbers, for amounts that are whole numbers written in decimal digits.
\<close>

definition inWindow :: "int \<Rightarrow> LogEntry \<Rightarrow> bool" where
  "inWindow start entry = (case timestamp entry of None \<Rightarrow> False | Some t \<Rightarrow> start \<le> t)"

definition counted :: "jsany \<Rightarrow> int \<Rightarrow> LogEntry \<Rightarrow> bool" where
  "counted a start entry =
     (allowed entry \<and> strict_eq (logAsset entry) a \<and> inWindow start entry)"

definition hasAmount :: "LogEntry \<Rightarrow> bool" where
  "hasAmount entry = (logAmount entry \<noteq> Prim JUndefined \<and> logAmount entry \<noteq> Prim JNull)"

definition loopSpend :: "jsany \<Rightarrow> int \<Rightarrow> LogEntry list \<Rightarrow> number" where
  "loopSpend a start history =
     foldl fadd (Finite 0)
       (map (\<lambda>entry. parseFloat (js_String (logAmount entry)))
          (filter (\<lambda>entry. counted a start entry \<and> hasAmount entry) history))"

definition wholeAmount :: "jsany \<Rightarrow> bool" where
  "wholeAmount v = (case v of Prim (JStr ds) \<Rightarrow> ds \<noteq> [] \<and> list_all is_digit ds | _ \<Rightarrow> False)"

definition amountValue :: "LogEntry \<Rightarrow> nat" where
  "amountValue entry = (case logAmount entry of Prim (JStr ds) \<Rightarrow> dec_value ds | _ \<Rightarrow> 0)"

definition wholeSpend :: "jsany \<Rightarrow> int \<Rightarrow> LogEntry list \<Rightarrow> nat" where
  "wholeSpend a start history =
     sum_list (map amountValue (filter (counted a start) history))"

section \<open>The spend check of the specification\<close>

text \<open>
  The spend accumulator as the specification words it, in exact arithmetic on the rational
  numbers. A limit rule has an asset, a maximum written as a decimal string and a window
  length in seconds. A decimal string is an optional minus sign and decimal digits, with
  an optional fraction; an amount that is a number is its own value. The history is
  scanned for the entries whose verdict was true, whose asset-or-token parameter (the
  asset parameter, or else the token parameter) equals the target asset and whose timestamp
  is at or after \<open>windowStart = now - windowSeconds\<close>; their amounts are summed, an
  absent or unparsable amount counting for zero; the request is permitted if and only if
  the asset is the rule's and that sum plus the requested amount is at most the maximum.
  Times are in milliseconds, as in the program.
\<close>

record LimitRule =
  ruleAsset :: string
  maxAmount :: string
  windowSeconds :: int

definition spec_digits :: "string \<Rightarrow> bool" where
  "spec_digits ds = (ds \<noteq> [] \<and> list_all is_digit ds)"

definition spec_unsigned :: "string \<Rightarrow> rat option" where
  "spec_unsigned s =
     (if spec_digits s then Some (of_nat (dec_value s))
      else if spec_digits (takeWhile (\<lambda>c. c \<noteq> CHR ''.'') s)
              \<and> spec_digits (tl (dropWhile (\<lambda>c. c \<noteq> CHR ''.'') s))
      then Some (of_nat (dec_value (takeWhile (\<lambda>c. c \<noteq> CHR ''.'') s))
                 + of_nat (dec_value (tl (dropWhile (\<lambda>c. c \<noteq> CHR ''.'') s)))
                   / 10 ^ length (tl (dropWhile (\<lambda>c. c \<noteq> CHR ''.'') s)))
      else None)"

definition spec_decimal :: "string \<Rightarrow> rat option" where
  "spec_decimal s =
     (case s of
        [] \<Rightarrow> None
      | c # r \<Rightarrow> if c = CHR ''-'' then map_option uminus (spec_unsigned r)
                 else spec_unsigned s)"

definition spec_entryAmount :: "LogEntry \<Rightarrow> rat" where
  "spec_entryAmount entry =
     (case map_of (params entry) ''amount'' of
        Some (JStr s) \<Rightarrow> (case spec_decimal s of Some q \<Rightarrow> q | None \<Rightarrow> 0)
      | Some (JNum (Finite q)) \<Rightarrow> q
      | _ \<Rightarrow> 0)"

definition spec_assetOrToken :: "LogEntry \<Rightarrow> jsval option" where
  "spec_assetOrToken entry =
     (case map_of (params entry) ''asset'' of
        Some v \<Rightarrow> Some v
      | None \<Rightarrow> map_of (params entry) ''token'')"

definition spec_counts :: "string \<Rightarrow> int \<Rightarrow> LogEntry \<Rightarrow> bool" where
  "spec_counts target start entry =
     (allowed entry \<and> spec_assetOrToken entry = Some (JStr target)
      \<and> (case timestamp entry of None \<Rightarrow> False | Some t \<Rightarrow> start \<le> t))"

definition spec_windowSpend :: "string \<Rightarrow> int \<Rightarrow> LogEntry list \<Rightarrow> rat" where
  "spec_windowSpend target start history =
     sum_list (map spec_entryAmount (filter (spec_counts target start) history))"

definition spec_withinLimit ::
  "string \<Rightarrow> string \<Rightarrow> LimitRule \<Rightarrow> LogEntry list \<Rightarrow> int \<Rightarrow> bool" where
  "spec_withinLimit target requested limitRule history now =
     (target = ruleAsset limitRule
      \<and> (case spec_decimal requested of
            None \<Rightarrow> False
          | Some r \<Rightarrow>
              (case spec_decimal (maxAmount limitRule) of
                 None \<Rightarrow> False
               | Some m \<Rightarrow>
                   spec_windowSpend target (now - 1000 * windowSeconds limitRule) history + r
                   \<le> m)))"

text \<open>
  An entry as \<^verbatim>\<open>authorize\<close> logs it for a request that names its asset and gives a whole
  amount.
\<close>

definition plainEntry :: "LogEntry \<Rightarrow> bool" where
  "plainEntry entry =
     (timestamp entry \<noteq> None
      \<and> (case map_of (params entry) ''asset'' of Some (JStr a) \<Rightarrow> a \<noteq> [] | _ \<Rightarrow> False)
      \<and> (case map_of (params entry) ''amount'' of Some (JStr ds) \<Rightarrow> spec_digits ds
          | _ \<Rightarrow> False))"

section \<open>Example states\<close>

text \<open>
  An agent \<^verbatim>\<open>a1\<close> that may \<^verbatim>\<open>transfer\<close> anything and \<^verbatim>\<open>swap\<close> on UniswapV3, with one
  limit on USDC. \<open>t0\<close> is 2023-11-14T22:13:20Z.
\<close>

definition t0 :: int where
  "t0 = 1700000000000"

definition hour :: int where
  "hour = 3600000"

definition usdc_limit :: "string \<Rightarrow> rat \<Rightarrow> LimitConfig" where
  "usdc_limit maxAmt seconds =
     \<lparr>asset = ''USDC'', amount = maxAmt, window_seconds = Finite seconds\<rparr>"

definition usdc_rule :: "string \<Rightarrow> int \<Rightarrow> LimitRule" where
  \<comment> \<open>the limit rule of the specification that \<open>usdc_limit\<close> stands for\<close>
  "usdc_rule maxAmt seconds =
     \<lparr>ruleAsset = ''USDC'', maxAmount = maxAmt, windowSeconds = seconds\<rparr>"

definition demo_config :: "LimitConfig \<Rightarrow> AgentConfig" where
  "demo_config limitCfg =
     \<lparr>agent_id = ''a1'', wallet = ''0x123'', name = Some ''payments_bot'', metadata = [],
      limits = [(''USDC'', limitCfg)],
      allow_rules = [\<lparr>action_type = ''transfer'', constraints = []\<rparr>,
                     \<lparr>action_type = ''swap'',
                      constraints = [(''protocol'', JStr ''UniswapV3'')]\<rparr>]\<rparr>"

definition spend :: "string \<Rightarrow> int option \<Rightarrow> jsval \<Rightarrow> LogEntry" where
  \<comment> \<open>an allowed transfer of USDC by the agent \<open>who\<close>\<close>
  "spend who t amt =
     \<lparr>timestamp = t, entry_agent_id = who, entry_action_type = ''transfer'',
      params = [(''asset'', JStr ''USDC''), (''amount'', amt)], allowed = True, reason = None\<rparr>"

definition store_of :: "LimitConfig \<Rightarrow> LogEntry list \<Rightarrow> JsonFileStorage" where
  "store_of limitCfg history =
     \<lparr>content = Inr \<lparr>agents = [(''a1'', demo_config limitCfg)], logs = history\<rparr>,
      write_error = None\<rparr>"

definition agent_of :: "LimitConfig \<Rightarrow> LogEntry list \<Rightarrow> Agent" where
  \<comment> \<open>the agent as \<^verbatim>\<open>Agent.register\<close> and the setters leave it: configuration cached\<close>
  "agent_of limitCfg history =
     \<lparr>agentId = ''a1'', storage = store_of limitCfg history,
      config = Some (demo_config limitCfg)\<rparr>"

definition broken_agent :: Agent where
  \<comment> \<open>the state file has become unreadable\<close>
  "broken_agent =
     \<lparr>agentId = ''a1'',
      storage = \<lparr>content = Inl ''ENOENT: no such file or directory'', write_error = None\<rparr>,
      config = Some (demo_config (usdc_limit ''25'' 86400))\<rparr>"

definition usdc :: "string \<Rightarrow> jsobject" where
  "usdc amt = [(''asset'', JStr ''USDC''), (''amount'', JStr amt)]"

definition busy_store :: JsonFileStorage where
  \<comment> \<open>a store shared with another agent, \<^verbatim>\<open>b7\<close>, whose entries are interleaved\<close>
  "busy_store =
     \<lparr>content = Inr \<lparr>agents = [(''b7'', demo_config (usdc_limit ''1'' 60)),
                                 (''a1'', demo_config (usdc_limit ''25'' 86400))],
                      logs = [spend ''b7'' (Some t0) (JStr ''1000''),
                              spend ''a1'' (Some t0) (JStr ''10''),
                              spend ''b7'' (Some (t0 + hour)) (JStr ''7''),
                              spend ''a1'' (Some (t0 + hour)) (JStr ''5'')]\<rparr>,
      write_error = None\<rparr>"

section \<open>Evaluation\<close>

lemma floor_rat_numeral: "\<lfloor>numeral a / numeral b :: rat\<rfloor> = numeral a div numeral b"
  by (metis floor_divide_of_int_eq of_int_numeral)

lemma ceiling_rat_numeral:
  "\<lceil>numeral a / numeral b :: rat\<rceil> = - (- numeral a div numeral b)"
  by (metis ceiling_def floor_divide_of_int_eq minus_divide_left of_int_minus of_int_numeral)

lemmas rnd_eval = rnd_def round_mag_def quantum_def ilog_def round_even_def pow2_def
  compute_floorlog floor_rat_numeral ceiling_rat_numeral

lemmas parse_eval = parseFloat_def parse_signed_def parse_unsigned_def literal_value_def
  exponent_part_def signed_integer_def after_frac_def frac_part_def has_point_def
  after_int_def int_part_def is_ws_def dec_value_def digit_val_def is_digit_def pow10_def

lemmas to_string_eval = positive_to_string_def layout_def shortest.simps candidates_def
  cand_ok_def cand_dist_def better_def dec_string.simps pow10_def

lemmas policy_eval = isWithinLimits_def logAmount_def logAsset_def before_def windowStart_def
  time_clip_def isActionAllowedByRules_def ruleMatches_def getLogs_def readData_def
  strict_eq_def js_or_def get_def read_property_def object_prototype_def fsub_def

lemmas agent_eval = authorize_def tryAuthorize_def checkLimits_def exceedsReason_def
  requestAsset_def decided_def logDecision_def loadConfig_def loadAgent_def appendLog_def
  writeData_def json_entry_def json_object_def

lemmas example_defs = t0_def hour_def usdc_limit_def usdc_rule_def demo_config_def spend_def
  store_of_def
  agent_of_def broken_agent_def usdc_def busy_store_def

lemmas observe_eval = verdict_def storedLogs_def agentAfter_def decisionEntry_def

lemmas loop_eval = loopSpend_def counted_def hasAmount_def inWindow_def wholeSpend_def
  amountValue_def wholeAmount_def

lemmas spec_eval = spec_withinLimit_def spec_windowSpend_def spec_counts_def
  spec_assetOrToken_def spec_entryAmount_def spec_decimal_def spec_unsigned_def
  spec_digits_def is_digit_def dec_value_def digit_val_def

section \<open>Rounding is exact on small integers\<close>

lemma round_even_of_int: "round_even (of_int j) = j"
  by (simp add: round_even_def)

lemma ilog2_int_bounds:
  assumes "1 \<le> k" "k < 2 ^ 53"
  shows "0 \<le> ilog 2 (of_int k)" "ilog 2 (of_int k) \<le> 52"
proof -
  have pos: "0 < nat k" using assms by simp
  have "nat k < 2 ^ 53" using assms by (simp add: nat_less_iff)
  then have "floorlog 2 (nat k) \<le> 53"
    by (intro floorlog_leI) simp_all
  moreover have "floorlog 2 (nat k) \<noteq> 0"
    using pos by (simp add: floorlog_eq_zero_iff)
  ultimately show "0 \<le> ilog 2 (of_int k)" "ilog 2 (of_int k) \<le> 52"
    using assms by (simp_all add: ilog_def)
qed

lemma round_mag_int:
  assumes "1 \<le> k" "k < 2 ^ 53"
  shows "round_mag (of_int k) = of_int k"
proof -
  define e where "e = ilog 2 (of_int k)"
  have e: "0 \<le> e" "e \<le> 52" using ilog2_int_bounds[OF assms] by (simp_all add: e_def)
  have q: "quantum (of_int k) = e - 52"
    using e by (simp add: quantum_def e_def)
  have p: "pow2 (e - 52) = 1 / 2 ^ nat (52 - e)"
    using e by (cases "e = 52") (simp_all add: pow2_def)
  have "of_int k / pow2 (e - 52) = (of_int (k * 2 ^ nat (52 - e)) :: rat)"
    by (simp add: p)
  then have "round_even (of_int k / pow2 (e - 52)) = k * 2 ^ nat (52 - e)"
    by (simp only: round_even_of_int)
  then show ?thesis
    by (simp add: round_mag_def q p)
qed

lemma rnd_int:
  assumes "\<bar>k\<bar> < 2 ^ 53"
  shows "rnd (of_int k) = Finite (of_int k)"
proof -
  have small: "\<not> pow2 1024 \<le> (of_int j :: rat)" if "j < 2 ^ 53" for j :: int
  proof -
    have "(of_int j :: rat) < 2 ^ 53"
      using that by (metis of_int_less_numeral_power_cancel_iff)
    also have "\<dots> < pow2 1024" by (simp add: pow2_def)
    finally show ?thesis by simp
  qed
  consider "k = 0" | "0 < k" | "k < 0" by linarith
  then show ?thesis
  proof cases
    case 1
    then show ?thesis by (simp add: rnd_def)
  next
    case 2
    then have "round_mag (of_int k) = of_int k"
      using assms by (intro round_mag_int) simp_all
    then show ?thesis
      using 2 assms small[of k] by (simp add: rnd_def)
  next
    case 3
    then have "round_mag (of_int (- k)) = of_int (- k)"
      using assms by (intro round_mag_int) simp_all
    then show ?thesis
      using 3 assms small[of "- k"] by (simp add: rnd_def)
  qed
qed

lemma int_less_2p53: "k < 2 ^ 53 \<Longrightarrow> \<bar>int k\<bar> < 2 ^ 53"
  unfolding abs_of_nat by (rule iffD2[OF of_nat_less_numeral_power_cancel_iff])

lemma rnd_nat:
  assumes "k < 2 ^ 53"
  shows "rnd (of_nat k) = Finite (of_nat k)"
  using rnd_int[OF int_less_2p53[OF assms]] by simp

lemma parseInt10_exact:
  assumes "dec_value ds < 2 ^ 53"
  shows "parseInt10 ds = Finite (of_nat (dec_value ds))"
  using rnd_nat[OF assms] by (simp add: parseInt10_def)

lemma fmul_exact:
  assumes "m * n < 2 ^ 53"
  shows "fmul (Finite (of_nat m)) (Finite (of_nat n)) = Finite (of_nat (m * n))"
  using rnd_nat[OF assms] by simp

section \<open>Whole amounts are parsed and added exactly\<close>

lemma digit_not_special:
  assumes "is_digit c"
  shows "\<not> is_ws c" "c \<noteq> CHR ''-''" "c \<noteq> CHR ''+''" "c \<noteq> CHR ''I''"
  using assms by (auto simp add: is_digit_def is_ws_def)

lemma takeWhile_all: "list_all P xs \<Longrightarrow> takeWhile P xs = xs"
  by (induction xs) auto

lemma dropWhile_all: "list_all P xs \<Longrightarrow> dropWhile P xs = []"
  by (induction xs) auto

lemma parseFloat_whole:
  assumes "ds \<noteq> []" "list_all is_digit ds" "dec_value ds < 2 ^ 53"
  shows "parseFloat ds = Finite (of_nat (dec_value ds))"
proof -
  obtain c r where ds: "ds = c # r" using assms(1) by (cases ds) auto
  then have c: "is_digit c" using assms(2) by simp
  have ws: "dropWhile is_ws ds = ds"
    using digit_not_special(1)[OF c] by (simp add: ds)
  have inf: "take 8 ds \<noteq> ''Infinity''"
    using digit_not_special(4)[OF c] by (auto simp add: ds)
  have ip: "int_part ds = ds" "after_int ds = []"
    using assms(2) by (simp_all add: int_part_def after_int_def takeWhile_all dropWhile_all)
  then have fp: "frac_part ds = []" "after_frac ds = []"
    by (simp_all add: frac_part_def after_frac_def has_point_def)
  have "literal_value ds = of_nat (dec_value ds)"
    by (simp add: literal_value_def ip fp exponent_part_def pow10_def)
  then have "parse_unsigned ds = Finite (of_nat (dec_value ds))"
    using inf assms(1) rnd_nat[OF assms(3)] by (simp add: parse_unsigned_def ip)
  then have "parse_signed ds = Finite (of_nat (dec_value ds))"
    using digit_not_special(2,3)[OF c] by (simp add: parse_signed_def ds)
  then show ?thesis by (simp add: parseFloat_def ws)
qed

lemma foldl_fadd_whole:
  assumes "a + sum_list ns < 2 ^ 53"
  shows "foldl fadd (Finite (of_nat a)) (map (\<lambda>n. Finite (of_nat n)) ns)
         = Finite (of_nat (a + sum_list ns))"
  using assms
proof (induction ns arbitrary: a)
  case Nil
  then show ?case by simp
next
  case (Cons n ns)
  have "a + n < 2 ^ 53" using Cons.prems by simp
  then have "fadd (Finite (of_nat a)) (Finite (of_nat n)) = Finite (of_nat (a + n))"
    using rnd_nat[of "a + n"] by simp
  moreover have "(a + n) + sum_list ns < 2 ^ 53" using Cons.prems by simp
  ultimately show ?case
    using Cons.IH[of "a + n"] by (simp add: add.assoc)
qed

lemma member_le_sum_list:
  fixes ns :: "nat list"
  assumes "n \<in> set ns"
  shows "n \<le> sum_list ns"
  using assms by (induction ns) auto

section \<open>Dates\<close>

lemma time_clip_int:
  assumes "\<bar>k\<bar> \<le> 8640000000000000"
  shows "time_clip (Finite (of_int k)) = Some k"
proof -
  have "\<bar>of_int k :: rat\<bar> = of_int \<bar>k\<bar>" by simp
  also have "\<dots> \<le> of_int 8640000000000000" using assms by (simp only: of_int_le_iff)
  finally have "\<bar>of_int k :: rat\<bar> \<le> 8640000000000000" by simp
  then show ?thesis by (simp add: time_clip_def)
qed

text \<open>
  For every clock value a \<^verbatim>\<open>Date\<close> can hold and every window of up to \<open>10 ^ 12\<close> seconds,
  the start of the window is \<open>now\<close> minus the window length, to the millisecond.
\<close>

lemma windowStart_exact:
  assumes "0 \<le> now" "now \<le> 8640000000000000" "w \<le> 1000000000000"
  shows "windowStart now (Finite (of_nat w)) = Some (now - 1000 * int w)"
proof -
  have "w * 1000 < 2 ^ 53" using assms by simp
  then have m: "fmul (Finite (of_nat w)) (Finite 1000) = Finite (of_nat (w * 1000))"
    using fmul_exact[of w 1000] by simp
  have "\<bar>now - int (w * 1000)\<bar> < 2 ^ 53" using assms by simp
  from rnd_int[OF this]
  have s: "fsub (Finite (of_int now)) (Finite (of_nat (w * 1000)))
           = Finite (of_int (now - int (w * 1000)))"
    by (simp add: fsub_def)
  have "\<bar>now - int (w * 1000)\<bar> \<le> 8640000000000000"
    using assms by simp
  from time_clip_int[OF this] show ?thesis
    unfolding windowStart_def m s by (simp add: mult.commute)
qed

section \<open>The rule matcher\<close>

lemma constraintsHold_iff:
  "constraintsHold cs ps \<longleftrightarrow>
     (\<forall>(key, v) \<in> set cs. js_String (get ps key) = js_String (Prim v))"
  by (induction cs ps rule: constraintsHold.induct) simp_all

lemma ruleMatches_iff:
  "ruleMatches rule ps \<longleftrightarrow>
     (\<forall>(key, v) \<in> set (constraints rule). js_String (get ps key) = js_String (Prim v))"
  by (cases "constraints rule") (simp_all add: ruleMatches_def constraintsHold_iff)

lemma anyRuleMatches_iff:
  "anyRuleMatches rules ps \<longleftrightarrow> (\<exists>r \<in> set rules. ruleMatches r ps)"
  by (induction rules) auto

section \<open>The window parser\<close>

lemma toLowerCase_units:
  "toLowerCase CHR ''h'' = CHR ''h''" "toLowerCase CHR ''H'' = CHR ''h''"
  "toLowerCase CHR ''d'' = CHR ''d''" "toLowerCase CHR ''D'' = CHR ''d''"
  by (simp_all add: toLowerCase_def)

lemma window_match_shape:
  assumes "ds \<noteq> []" "list_all is_digit ds" "u \<in> set ''hdHD''"
  shows "window_match (ds @ [u]) = Some (ds, u)"
  using assms by (simp add: window_match_def)

lemma window_match_None:
  assumes "\<not> (\<exists>ds u. w = ds @ [u] \<and> ds \<noteq> [] \<and> list_all is_digit ds \<and> u \<in> set ''hdHD'')"
  shows "window_match w = None"
proof (cases "w = []")
  case True
  then show ?thesis by (simp add: window_match_def)
next
  case False
  then have "w = butlast w @ [last w]" by simp
  with assms
  have "butlast w = [] \<or> \<not> list_all is_digit (butlast w) \<or> last w \<notin> set ''hdHD''"
    by metis
  then show ?thesis by (auto simp add: window_match_def)
qed

lemma no_window_shape:
  assumes "w = [] \<or> butlast w = [] \<or> \<not> list_all is_digit (butlast w)
           \<or> last w \<notin> set ''hdHD''"
  shows "\<not> (\<exists>ds u. w = ds @ [u] \<and> ds \<noteq> [] \<and> list_all is_digit ds \<and> u \<in> set ''hdHD'')"
  using assms by auto

text \<open>The last \<^verbatim>\<open>throw\<close> of \<^verbatim>\<open>parseTimeWindow\<close> is dead code.\<close>

lemma unknown_unit_unreachable: "parseTimeWindow w \<noteq> Inl (UnknownTimeUnit x)"
proof (cases "window_match w")
  case None
  then show ?thesis by (simp add: parseTimeWindow_def)
next
  case (Some m)
  then have "snd m \<in> set ''hdHD''"
    by (auto simp add: window_match_def split: if_splits)
  then show ?thesis
    using Some by (cases m) (auto simp add: parseTimeWindow_def toLowerCase_units)
qed

section \<open>The spend accumulator\<close>

lemma totalSpent_foldl:
  assumes "\<forall>entry \<in> set history. timestamp entry \<noteq> None"
  shows "totalSpent a (Some start) history spent =
         foldl fadd spent
           (map (\<lambda>entry. parseFloat (js_String (logAmount entry)))
              (filter (\<lambda>entry. counted a start entry \<and> hasAmount entry) history))"
  using assms
proof (induction history arbitrary: spent)
  case Nil
  then show ?case by simp
next
  case (Cons entry rest)
  then obtain t where t: "timestamp entry = Some t" by auto
  have rest: "\<forall>e \<in> set rest. timestamp e \<noteq> None" using Cons.prems by simp
  show ?case
    using Cons.IH[OF rest] t
    by (simp add: counted_def inWindow_def hasAmount_def before_def not_less)
qed

lemma isWithinLimits_fold:
  assumes "getLogs st aid None = Inr history"
    and "\<forall>entry \<in> set history. timestamp entry \<noteq> None"
    and "windowStart now (window_seconds limitCfg) = Some start"
  shows "isWithinLimits (Prim (JStr (asset limitCfg))) amt limitCfg st aid now =
         Inr (fle (fadd (loopSpend (Prim (JStr (asset limitCfg))) start history)
                        (parseFloat amt))
                  (parseFloat (amount limitCfg)))"
  using assms(1,3) totalSpent_foldl[OF assms(2)]
  by (simp add: isWithinLimits_def strict_eq_def loopSpend_def)

lemma loopSpend_whole:
  assumes "\<forall>entry \<in> set history. wholeAmount (logAmount entry)"
    and "wholeSpend a start history < 2 ^ 53"
  shows "loopSpend a start history = Finite (of_nat (wholeSpend a start history))"
proof -
  let ?counted = "filter (counted a start) history"
  have has: "hasAmount entry" if "entry \<in> set history" for entry
    using assms(1) that
    by (auto simp add: wholeAmount_def hasAmount_def split: jsany.splits jsval.splits)
  then have f: "filter (\<lambda>entry. counted a start entry \<and> hasAmount entry) history = ?counted"
    by (intro filter_cong) auto
  have p: "parseFloat (js_String (logAmount entry)) = Finite (of_nat (amountValue entry))"
    if "entry \<in> set ?counted" for entry
  proof -
    have "entry \<in> set history" using that by simp
    then have "wholeAmount (logAmount entry)" using assms(1) by blast
    then obtain ds where ds: "logAmount entry = Prim (JStr ds)" "ds \<noteq> []" "list_all is_digit ds"
      by (auto simp add: wholeAmount_def split: jsany.splits jsval.splits)
    have "amountValue entry \<le> wholeSpend a start history"
      unfolding wholeSpend_def using that by (intro member_le_sum_list) simp
    then have "dec_value ds < 2 ^ 53"
      using assms(2) ds(1) by (simp add: amountValue_def)
    from parseFloat_whole[OF ds(2,3) this] show ?thesis
      by (simp add: ds(1) amountValue_def)
  qed
  have m: "map (\<lambda>entry. parseFloat (js_String (logAmount entry))) ?counted
        = map (\<lambda>n. Finite (of_nat n)) (map amountValue ?counted)"
    unfolding map_map by (rule map_cong[OF refl]) (simp add: p)
  have "foldl fadd (Finite (of_nat 0)) (map (\<lambda>n. Finite (of_nat n)) (map amountValue ?counted))
        = Finite (of_nat (0 + sum_list (map amountValue ?counted)))"
    using assms(2) by (intro foldl_fadd_whole) (simp add: wholeSpend_def)
  then show ?thesis
    unfolding loopSpend_def f m wholeSpend_def by simp
qed

lemma spec_decimal_digits:
  assumes "spec_digits ds"
  shows "spec_decimal ds = Some (of_nat (dec_value ds))"
proof -
  obtain c r where ds: "ds = c # r" using assms by (cases ds) (auto simp add: spec_digits_def)
  then have "is_digit c" using assms by (simp add: spec_digits_def)
  then have "c \<noteq> CHR ''-''" by (rule digit_not_special)
  then show ?thesis
    using assms by (simp add: spec_decimal_def spec_unsigned_def ds)
qed

lemma plainEntry_reads:
  assumes "plainEntry entry"
  obtains a ds where "logAsset entry = Prim (JStr a)" "logAmount entry = Prim (JStr ds)"
    "spec_assetOrToken entry = Some (JStr a)" "spec_digits ds"
    "spec_entryAmount entry = of_nat (dec_value ds)" "timestamp entry \<noteq> None"
proof -
  from assms obtain a where a: "map_of (params entry) ''asset'' = Some (JStr a)" "a \<noteq> []"
    by (auto simp add: plainEntry_def split: option.splits jsval.splits)
  from assms obtain ds where ds: "map_of (params entry) ''amount'' = Some (JStr ds)"
      "spec_digits ds"
    by (auto simp add: plainEntry_def split: option.splits jsval.splits)
  have "logAsset entry = Prim (JStr a)"
    using a by (simp add: logAsset_def get_def read_property_def js_or_def)
  moreover have "logAmount entry = Prim (JStr ds)"
    using ds by (simp add: logAmount_def get_def read_property_def)
  moreover have "spec_assetOrToken entry = Some (JStr a)"
    using a by (simp add: spec_assetOrToken_def)
  moreover have "spec_entryAmount entry = of_nat (dec_value ds)"
    using ds by (simp add: spec_entryAmount_def spec_decimal_digits)
  moreover have "timestamp entry \<noteq> None"
    using assms by (simp add: plainEntry_def)
  ultimately show ?thesis using that ds(2) by blast
qed

lemma plainEntry_counted:
  assumes "plainEntry entry"
  shows "counted (Prim (JStr target)) start entry \<longleftrightarrow> spec_counts target start entry"
    and "spec_entryAmount entry = of_nat (amountValue entry)"
    and "wholeAmount (logAmount entry)"
proof -
  from plainEntry_reads[OF assms] obtain a ds where
    r: "logAsset entry = Prim (JStr a)" "logAmount entry = Prim (JStr ds)"
       "spec_assetOrToken entry = Some (JStr a)" "spec_digits ds"
       "spec_entryAmount entry = of_nat (dec_value ds)"
    by metis
  show "counted (Prim (JStr target)) start entry \<longleftrightarrow> spec_counts target start entry"
    by (auto simp add: counted_def spec_counts_def inWindow_def strict_eq_def r)
  show "spec_entryAmount entry = of_nat (amountValue entry)"
    by (simp add: amountValue_def r)
  show "wholeAmount (logAmount entry)"
    using r(4) by (simp add: wholeAmount_def r(2) spec_digits_def)
qed

lemma sum_list_of_nat:
  "sum_list (map (\<lambda>x. of_nat (f x)) xs) = (of_nat (sum_list (map f xs)) :: rat)"
  by (induction xs) simp_all

lemma spec_windowSpend_whole:
  assumes "\<forall>entry \<in> set history. plainEntry entry"
  shows "spec_windowSpend target start history
         = of_nat (wholeSpend (Prim (JStr target)) start history)"
proof -
  have f: "filter (spec_counts target start) history
           = filter (counted (Prim (JStr target)) start) history"
    using assms by (intro filter_cong) (simp_all add: plainEntry_counted(1))
  have m: "map spec_entryAmount (filter (counted (Prim (JStr target)) start) history)
           = map (\<lambda>entry. of_nat (amountValue entry))
               (filter (counted (Prim (JStr target)) start) history)"
    using assms by (intro map_cong) (simp_all add: plainEntry_counted(2))
  show ?thesis
    unfolding spec_windowSpend_def wholeSpend_def f m by (rule sum_list_of_nat)
qed

text \<open>
  Where the program meets the specification: on a history of plain entries, for a
  request and a maximum that are whole numbers, a window of whole seconds and sums below
  \<open>2 ^ 53\<close>, \<^verbatim>\<open>isWithinLimits\<close> returns what the specification asks for.
\<close>

lemma isWithinLimits_meets_spec_on_whole_amounts:
  assumes logs: "getLogs st aid None = Inr history"
    and plain: "\<forall>entry \<in> set history. plainEntry entry"
    and window: "window_seconds limitCfg = Finite (of_nat w)" "w \<le> 1000000000000"
    and clock: "0 \<le> now" "now \<le> 8640000000000000"
    and whole: "spec_digits amt" "spec_digits (amount limitCfg)"
    and small: "wholeSpend (Prim (JStr (asset limitCfg))) (now - 1000 * int w) history
                  + dec_value amt < 2 ^ 53"
      "dec_value (amount limitCfg) < 2 ^ 53"
  shows "isWithinLimits (Prim (JStr (asset limitCfg))) amt limitCfg st aid now =
           Inr (spec_withinLimit (asset limitCfg) amt
                  \<lparr>ruleAsset = asset limitCfg, maxAmount = amount limitCfg,
                   windowSeconds = int w\<rparr> history now)"
proof -
  let ?a = "Prim (JStr (asset limitCfg))"
  let ?start = "now - 1000 * int w"
  let ?S = "wholeSpend ?a ?start history"
  have dated: "\<forall>entry \<in> set history. timestamp entry \<noteq> None"
    using plain by (simp add: plainEntry_def)
  have start: "windowStart now (window_seconds limitCfg) = Some ?start"
    unfolding window(1) by (rule windowStart_exact[OF clock window(2)])
  have amounts: "\<forall>entry \<in> set history. wholeAmount (logAmount entry)"
    using plain by (simp add: plainEntry_counted(3))
  have s: "loopSpend ?a ?start history = Finite (of_nat ?S)"
    using small(1) by (intro loopSpend_whole[OF amounts]) simp
  have a: "parseFloat amt = Finite (of_nat (dec_value amt))"
    using whole(1) small(1) by (intro parseFloat_whole) (simp_all add: spec_digits_def)
  have m: "parseFloat (amount limitCfg) = Finite (of_nat (dec_value (amount limitCfg)))"
    using whole(2) small(2) by (intro parseFloat_whole) (simp_all add: spec_digits_def)
  have t: "fadd (Finite (of_nat ?S)) (Finite (of_nat (dec_value amt)))
           = Finite (of_nat (?S + dec_value amt))"
    using small(1) rnd_nat[of "?S + dec_value amt"] by simp
  have code: "isWithinLimits ?a amt limitCfg st aid now
              = Inr (?S + dec_value amt \<le> dec_value (amount limitCfg))"
    unfolding isWithinLimits_fold[OF logs dated start] s a m t
    by (simp only: fle.simps of_nat_le_iff)
  have "spec_withinLimit (asset limitCfg) amt
          \<lparr>ruleAsset = asset limitCfg, maxAmount = amount limitCfg, windowSeconds = int w\<rparr>
          history now
        \<longleftrightarrow> (of_nat ?S + of_nat (dec_value amt) :: rat) \<le> of_nat (dec_value (amount limitCfg))"
    by (simp add: spec_withinLimit_def spec_decimal_digits[OF whole(1)]
          spec_decimal_digits[OF whole(2)] spec_windowSpend_whole[OF plain])
  also have "\<dots> \<longleftrightarrow> ?S + dec_value amt \<le> dec_value (amount limitCfg)"
    by (metis of_nat_add of_nat_le_iff)
  finally show ?thesis
    using code by simp
qed

text \<open>An entry without an amount adds nothing to the running total.\<close>

lemma absent_amount_adds_nothing:
  assumes "logAmount entry = Prim JUndefined \<or> logAmount entry = Prim JNull"
  shows "totalSpent a start (entry # rest) spent = totalSpent a start rest spent"
  using assms by auto

lemma isWithinLimits_readable:
  assumes "content st = Inr d"
  shows "\<exists>b. isWithinLimits a amt limitCfg st aid now = Inr b"
  using assms by (auto simp add: isWithinLimits_def getLogs_def readData_def)

lemma isWithinLimits_history:
  assumes "getLogs st1 id1 None = getLogs st2 id2 None"
  shows "isWithinLimits a amt limitCfg st1 id1 now = isWithinLimits a amt limitCfg st2 id2 now"
  using assms by (simp add: isWithinLimits_def)

section \<open>The decision engine on a store that works\<close>

lemma loadConfig_keeps:
  assumes "loadConfig ag = Inr (c, ag1)"
  shows "storage ag1 = storage ag" "agentId ag1 = agentId ag"
  using assms by (auto simp add: loadConfig_def split: option.splits sum.splits)

lemma decided_healthy:
  assumes "content (storage ag) = Inr d" "write_error (storage ag) = None"
  shows "\<exists>ag'. decided ag actionType ps v why stamp = Inr (v, ag') \<and>
           storedLogs ag' = logs d @ [decisionEntry ag actionType ps v why stamp]"
  using assms
  by (simp add: decided_def logDecision_def appendLog_def readData_def writeData_def
        storedLogs_def decisionEntry_def json_entry_def)

lemma decided_unreadable:
  assumes "content (storage ag) = Inl m"
  shows "decided ag actionType ps v why stamp = Inl (IOError m, ag)"
  using assms by (simp add: decided_def logDecision_def appendLog_def readData_def)

lemma tryAuthorize_unreadable:
  assumes "content (storage ag) = Inl m"
  shows "tryAuthorize ag actionType ps now stamp = Inl (IOError m, ag)"
proof (cases "config ag")
  case None
  then show ?thesis
    using assms by (simp add: tryAuthorize_def loadConfig_def loadAgent_def readData_def)
next
  case (Some c)
  have w: "isWithinLimits a amt limitCfg (storage ag) (agentId ag) now = Inr False
           \<or> isWithinLimits a amt limitCfg (storage ag) (agentId ag) now = Inl (IOError m)"
    for a amt limitCfg
    using assms by (simp add: isWithinLimits_def getLogs_def readData_def)
  have "checkLimits ag c actionType ps now stamp = Inl (IOError m, ag)"
  proof (cases "read_property (limits c) (js_String (requestAsset ps))")
    case Absent
    then show ?thesis
      by (simp add: checkLimits_def decided_unreadable[OF assms])
  next
    case (Inherited m)
    then show ?thesis
      by (simp add: checkLimits_def decided_unreadable[OF assms])
  next
    case (Own limitCfg)
    then show ?thesis
      using w[of "requestAsset ps" "js_String (get ps ''amount'')" limitCfg]
      by (auto simp add: checkLimits_def decided_unreadable[OF assms])
  qed
  then show ?thesis
    using Some by (simp add: tryAuthorize_def loadConfig_def decided_unreadable[OF assms])
qed

lemma authorize_passes_try:
  assumes "tryAuthorize ag actionType ps now stamp = Inr r"
  shows "authorize ag actionType ps now stamp = Inr r"
  using assms by (simp add: authorize_def)

lemma checkLimits_healthy:
  assumes "content (storage ag) = Inr d" "write_error (storage ag) = None"
  shows "\<exists>ag' why. checkLimits ag c actionType ps now stamp =
            Inr (limitCheck c (storage ag) (agentId ag) ps now, ag')
          \<and> storedLogs ag' = logs d @ [decisionEntry ag actionType ps
                 (limitCheck c (storage ag) (agentId ag) ps now) why stamp]"
proof (cases "truthy (get ps ''amount'') \<and> truthy (requestAsset ps)")
  case False
  then show ?thesis
    using decided_healthy[OF assms, of actionType ps True None stamp]
    by (auto simp add: checkLimits_def limitCheck_def)
next
  case gate: True
  show ?thesis
  proof (cases "read_property (limits c) (js_String (requestAsset ps))")
    case Absent
    then show ?thesis
      using gate decided_healthy[OF assms, of actionType ps True None stamp]
      by (auto simp add: checkLimits_def limitCheck_def)
  next
    case (Inherited m)
    then show ?thesis
      using gate
        decided_healthy[OF assms, of actionType ps False
          "Some (exceedsReason (requestAsset ps) (Inherited m))" stamp]
      by (auto simp add: checkLimits_def limitCheck_def)
  next
    case (Own limitCfg)
    obtain b where b: "isWithinLimits (requestAsset ps) (js_String (get ps ''amount''))
        limitCfg (storage ag) (agentId ag) now = Inr b"
      using isWithinLimits_readable[OF assms(1)] by blast
    show ?thesis
    proof (cases b)
      case True
      then show ?thesis
        using gate Own b decided_healthy[OF assms, of actionType ps True None stamp]
        by (auto simp add: checkLimits_def limitCheck_def)
    next
      case False
      then show ?thesis
        using gate Own b
          decided_healthy[OF assms, of actionType ps False
            "Some (exceedsReason (requestAsset ps) (Own limitCfg))" stamp]
        by (auto simp add: checkLimits_def limitCheck_def)
    qed
  qed
qed

text \<open>
  When the configuration loads and the store can be read and written, \<^verbatim>\<open>authorize\<close>
  returns the conjunction of its two checks and appends exactly one entry, which records
  that verdict.
\<close>

lemma authorize_healthy:
  assumes "loadConfig ag = Inr (c, ag1)" "content (storage ag) = Inr d"
    "write_error (storage ag) = None"
  shows "\<exists>ag' why. authorize ag actionType ps now stamp =
            Inr (isActionAllowedByRules actionType ps (allow_rules c)
                 \<and> limitCheck c (storage ag) (agentId ag) ps now, ag')
          \<and> storedLogs ag' = logs d @ [decisionEntry ag actionType ps
                 (isActionAllowedByRules actionType ps (allow_rules c)
                  \<and> limitCheck c (storage ag) (agentId ag) ps now) why stamp]"
proof -
  have st: "content (storage ag1) = Inr d" "write_error (storage ag1) = None"
    and aid: "agentId ag1 = agentId ag" and sto: "storage ag1 = storage ag"
    using loadConfig_keeps[OF assms(1)] assms(2,3) by simp_all
  have entry: "decisionEntry ag1 = decisionEntry ag"
    by (simp add: decisionEntry_def fun_eq_iff aid)
  show ?thesis
  proof (cases "isActionAllowedByRules actionType ps (allow_rules c)")
    case False
    then have "tryAuthorize ag actionType ps now stamp =
        decided ag1 actionType ps False (Some ''Action not in allowlist'') stamp"
      using assms(1) by (simp add: tryAuthorize_def)
    moreover obtain ag' where
      "decided ag1 actionType ps False (Some ''Action not in allowlist'') stamp
         = Inr (False, ag')"
      and l: "storedLogs ag' = logs d @ [decisionEntry ag actionType ps False
            (Some ''Action not in allowlist'') stamp]"
      using decided_healthy[OF st, of actionType ps False "Some ''Action not in allowlist''" stamp]
      by (auto simp add: entry)
    ultimately have "authorize ag actionType ps now stamp = Inr (False, ag')"
      by (intro authorize_passes_try) simp
    then show ?thesis
      using False l by auto
  next
    case True
    then have t: "tryAuthorize ag actionType ps now stamp
                  = checkLimits ag1 c actionType ps now stamp"
      using assms(1) by (simp add: tryAuthorize_def)
    obtain ag' why where
      r: "checkLimits ag1 c actionType ps now stamp =
            Inr (limitCheck c (storage ag) (agentId ag) ps now, ag')"
      and l: "storedLogs ag' = logs d @ [decisionEntry ag actionType ps
                 (limitCheck c (storage ag) (agentId ag) ps now) why stamp]"
      using checkLimits_healthy[OF st, of c actionType ps now stamp]
      unfolding entry aid sto by blast
    have "authorize ag actionType ps now stamp =
            Inr (limitCheck c (storage ag) (agentId ag) ps now, ag')"
      using t r by (intro authorize_passes_try) simp
    then show ?thesis
      using True l by auto
  qed
qed

lemma verdict_authorize:
  assumes "loadConfig ag = Inr (c, ag1)" "content (storage ag) = Inr d"
    "write_error (storage ag) = None"
  shows "verdict (authorize ag actionType ps now stamp) =
           Some (isActionAllowedByRules actionType ps (allow_rules c)
                 \<and> limitCheck c (storage ag) (agentId ag) ps now)"
  using authorize_healthy[OF assms, of actionType ps now stamp]
  by (auto simp add: verdict_def)

text \<open>
  A request whose asset is named like a member of \<^verbatim>\<open>Object.prototype\<close> finds that member
  where a limit is looked for, and is denied; an asset without a limit is not checked.
\<close>

lemma inherited_limit_denies:
  "verdict (authorize (agent_of (usdc_limit ''25'' 86400) []) ''transfer''
              [(''asset'', JStr ''constructor''), (''amount'', JStr ''1'')] t0 t0) = Some False
   \<and> reason (last (storedLogs (agentAfter
        (authorize (agent_of (usdc_limit ''25'' 86400) []) ''transfer''
              [(''asset'', JStr ''constructor''), (''amount'', JStr ''1'')] t0 t0))))
       = Some ''Exceeds constructor limit of undefined per undefineds''
   \<and> verdict (authorize (agent_of (usdc_limit ''25'' 86400) []) ''transfer''
              [(''asset'', JStr ''DAI''), (''amount'', JStr ''1'')] t0 t0) = Some True"
  by (simp add: observe_eval agent_eval policy_eval example_defs)

lemma decided_unwritable:
  assumes "content (storage ag) = Inr d" "write_error (storage ag) = Some m"
  shows "decided ag actionType ps v why stamp = Inl (IOError m, ag)"
  using assms
  by (simp add: decided_def logDecision_def appendLog_def readData_def writeData_def)

text \<open>
  A store that can be read but not written makes every call throw as well: each path
  through \<^verbatim>\<open>authorize\<close> ends in \<^verbatim>\<open>logDecision\<close>, and so does the handler.
\<close>

lemma authorize_throws_when_store_unwritable:
  assumes "content (storage ag) = Inr d" "write_error (storage ag) = Some m"
  shows "\<exists>ag'. authorize ag actionType ps now stamp = Inl (IOError m, ag')"
proof (cases "tryAuthorize ag actionType ps now stamp")
  case (Inl x)
  obtain e ag' where x: "x = (e, ag')" by (cases x)
  have "storage ag' = storage ag"
    using Inl x
    by (auto simp add: tryAuthorize_def checkLimits_def decided_def logDecision_def
          loadConfig_def split: sum.splits option.splits if_splits prod.splits property.splits)
  then have "decided ag' actionType ps False
               (Some (''Error during authorization: '' @ message e)) stamp
             = Inl (IOError m, ag')"
    using assms by (intro decided_unwritable) simp_all
  then show ?thesis
    using Inl x by (simp add: authorize_def)
next
  case (Inr r)
  have "\<And>ag' v why. storage ag' = storage ag \<Longrightarrow>
          decided ag' actionType ps v why stamp = Inl (IOError m, ag')"
    using assms by (intro decided_unwritable) simp_all
  then have False
    using Inr
    by (auto simp add: tryAuthorize_def checkLimits_def loadConfig_def loadAgent_def
          readData_def assms split: sum.splits option.splits if_splits prod.splits property.splits)
  then show ?thesis ..
qed

text \<open>
  Whatever goes wrong inside the \<^verbatim>\<open>try\<close> block, the handler never returns true: it
  returns false once the denial is logged, and throws when logging fails as well.
\<close>

lemma authorize_fault_never_allows:
  assumes "tryAuthorize ag actionType ps now stamp = Inl x"
  shows "verdict (authorize ag actionType ps now stamp) \<noteq> Some True"
  using assms
  by (cases x) (simp add: authorize_def decided_def verdict_def split: sum.splits)

section \<open>The claims\<close>

subsection \<open>C1: faults during the checks\<close>

text \<open>
  Claim C1: if an unexpected fault (storage unreadable, malformed stored data, parser
  exception) occurs while \<^verbatim>\<open>authorize\<close> performs the rule check or the limit check,
  \<^verbatim>\<open>authorize\<close> returns false, and no internal failure makes it return true.

  The handler of \<^verbatim>\<open>authorize\<close> is commented \<^verbatim>\<open>Fail-safe: deny on any error\<close>, but before
  it returns false it calls \<^verbatim>\<open>logDecision\<close>, outside any \<^verbatim>\<open>try\<close>, and \<^verbatim>\<open>appendLog\<close>
  reads the state file first. So when the store is unreadable, for every agent and every
  request, \<^verbatim>\<open>authorize\<close> does not return false: it throws the read error to its caller
  and leaves the agent as it was. The second half of the claim holds: on a fault the
  call never returns true (\<open>authorize_fault_never_allows\<close>).
\<close>

theorem authorize_throws_when_store_unreadable:
  assumes "content (storage ag) = Inl m"
  shows "authorize ag actionType ps now stamp = Inl (IOError m, ag)"
  by (simp add: authorize_def tryAuthorize_unreadable[OF assms] decided_unreadable[OF assms])

theorem authorize_throws_when_store_unreadable_witness:
  "content (storage broken_agent) = Inl ''ENOENT: no such file or directory''
   \<and> authorize broken_agent ''transfer'' (usdc ''10'') (t0 + 2 * hour) (t0 + 2 * hour)
       = Inl (IOError ''ENOENT: no such file or directory'', broken_agent)
   \<and> verdict (authorize broken_agent ''transfer'' (usdc ''10'') (t0 + 2 * hour) (t0 + 2 * hour))
       = None"
proof -
  have c: "content (storage broken_agent) = Inl ''ENOENT: no such file or directory''"
    by (simp add: broken_agent_def)
  show ?thesis
    using c authorize_throws_when_store_unreadable[OF c, of "''transfer''" "usdc ''10''"
        "t0 + 2 * hour" "t0 + 2 * hour"]
    by (simp add: verdict_def)
qed

subsection \<open>C2: the spend check compares the total with the maximum\<close>

text \<open>
  Claim C2: for an asset with a configured limit, every history, clock value and requested
  amount, the spend check permits the request if and only if the sum of the in-window
  allowed spend plus the requested amount is at most the configured maximum, equality
  included; with a limit of 25 over 24 hours and allowed spends of 10 and 5 inside the
  window, a request of 10 is allowed and a following request of 10 is denied.

  The last line of \<^verbatim>\<open>isWithinLimits\<close> is that comparison,
  \<^verbatim>\<open>(totalSpent + requestAmount) <= limitAmount\<close>, but its three numbers are binary
  floating-point numbers that \<^verbatim>\<open>parseFloat\<close> made of the amounts, although
  \<^verbatim>\<open>LimitConfig.amount\<close> is declared a string \<^verbatim>\<open>to avoid floating-point issues\<close>. At
  the boundary the rounding decides: with a limit of 0.3 over 24 hours and two allowed
  spends of 0.1 inside the window, a request of 0.1 brings the total to the maximum
  exactly, and is denied. This is the defect of claim C4, met at the boundary the claim
  promises; entries with unreadable timestamps (C3) and unparsable amounts (C5) break the
  equivalence as well. On whole amounts the program does what the claim says
  (\<open>isWithinLimits_meets_spec_on_whole_amounts\<close>), and so in the scenario of the claim
  (\<open>sliding_window_scenario\<close>).
\<close>

theorem boundary_spend_denied_by_rounding:
  "isWithinLimits (Prim (JStr ''USDC'')) ''0.1'' (usdc_limit ''0.3'' 86400)
     (store_of (usdc_limit ''0.3'' 86400)
        [spend ''a1'' (Some t0) (JStr ''0.1''), spend ''a1'' (Some (t0 + hour)) (JStr ''0.1'')])
     ''a1'' (t0 + 2 * hour)
     = Inr False
   \<and> spec_windowSpend ''USDC'' (t0 + 2 * hour - 1000 * 86400)
        [spend ''a1'' (Some t0) (JStr ''0.1''), spend ''a1'' (Some (t0 + hour)) (JStr ''0.1'')]
       = 2 / 10
   \<and> spec_decimal ''0.1'' = Some (1 / 10) \<and> spec_decimal ''0.3'' = Some (3 / 10)
   \<and> spec_withinLimit ''USDC'' ''0.1'' (usdc_rule ''0.3'' 86400)
        [spend ''a1'' (Some t0) (JStr ''0.1''), spend ''a1'' (Some (t0 + hour)) (JStr ''0.1'')]
        (t0 + 2 * hour)"
  by (simp add: spec_eval policy_eval example_defs parse_eval rnd_eval)

text \<open>
  The scenario of the claim, in the program and in the specification: the request of 10
  that brings the total to 25 is permitted, and once it is logged the next one is denied.
\<close>

lemma sliding_window_scenario:
  "isWithinLimits (Prim (JStr ''USDC'')) ''10'' (usdc_limit ''25'' 86400)
     (store_of (usdc_limit ''25'' 86400)
        [spend ''a1'' (Some t0) (JStr ''10''), spend ''a1'' (Some (t0 + hour)) (JStr ''5'')])
     ''a1'' (t0 + 2 * hour)
     = Inr True
   \<and> spec_withinLimit ''USDC'' ''10'' (usdc_rule ''25'' 86400)
        [spend ''a1'' (Some t0) (JStr ''10''), spend ''a1'' (Some (t0 + hour)) (JStr ''5'')]
        (t0 + 2 * hour)
   \<and> isWithinLimits (Prim (JStr ''USDC'')) ''10'' (usdc_limit ''25'' 86400)
     (store_of (usdc_limit ''25'' 86400)
        [spend ''a1'' (Some t0) (JStr ''10''), spend ''a1'' (Some (t0 + hour)) (JStr ''5''),
         spend ''a1'' (Some (t0 + 2 * hour)) (JStr ''10'')])
     ''a1'' (t0 + 2 * hour + 1)
     = Inr False
   \<and> \<not> spec_withinLimit ''USDC'' ''10'' (usdc_rule ''25'' 86400)
        [spend ''a1'' (Some t0) (JStr ''10''), spend ''a1'' (Some (t0 + hour)) (JStr ''5''),
         spend ''a1'' (Some (t0 + 2 * hour)) (JStr ''10'')]
        (t0 + 2 * hour + 1)"
  by (simp add: spec_eval policy_eval example_defs parse_eval rnd_eval)

text \<open>
  The same scenario through \<^verbatim>\<open>authorize\<close>: the first request is allowed and logged, and
  the entry it leaves makes the next one exceed the limit.
\<close>

lemma sliding_window_example:
  "verdict (authorize (agent_of (usdc_limit ''25'' 86400)
               [spend ''a1'' (Some t0) (JStr ''10''), spend ''a1'' (Some (t0 + hour)) (JStr ''5'')])
             ''transfer'' (usdc ''10'') (t0 + 2 * hour) (t0 + 2 * hour + 5)) = Some True
   \<and> verdict (authorize
               (agentAfter (authorize (agent_of (usdc_limit ''25'' 86400)
                  [spend ''a1'' (Some t0) (JStr ''10''), spend ''a1'' (Some (t0 + hour)) (JStr ''5'')])
                ''transfer'' (usdc ''10'') (t0 + 2 * hour) (t0 + 2 * hour + 5)))
             ''transfer'' (usdc ''10'') (t0 + 2 * hour + 100) (t0 + 2 * hour + 105)) = Some False"
  by (simp add: observe_eval agent_eval policy_eval example_defs parse_eval rnd_eval
        to_string_eval)

subsection \<open>C3: which entries the spend ranges over\<close>

text \<open>
  Claim C3: the sum ranges over exactly the entries whose verdict was true, whose
  asset-or-token parameter equals the target asset, and whose timestamp is at or after
  \<open>windowStart = now - windowSeconds\<close>; denied entries and entries older than the window
  never contribute.

  \<^verbatim>\<open>isWithinLimits\<close> wraps \<^verbatim>\<open>new Date(log.timestamp)\<close> in a \<^verbatim>\<open>try\<close> whose handler
  skips the entry, but that constructor never throws: for a string that is no date it
  yields the \<^verbatim>\<open>Invalid Date\<close>, and \<^verbatim>\<open>logTime < windowStart\<close> is then false. So an
  allowed entry whose timestamp is unreadable is not skipped: here it uses up 20 of a
  limit of 25 per hour and a request of 10 is denied, although no entry has a timestamp
  inside the window, the spend the claim describes is zero and the specification permits
  the request. On histories whose timestamps are all dates the loop ranges over the
  entries the claim names (\<open>totalSpent_foldl\<close>).
\<close>

theorem undated_entry_counts_toward_spend:
  "isWithinLimits (Prim (JStr ''USDC'')) ''10'' (usdc_limit ''25'' 3600)
     (store_of (usdc_limit ''25'' 3600) [spend ''a1'' None (JStr ''20'')]) ''a1'' (t0 + 2 * hour)
     = Inr False
   \<and> windowStart (t0 + 2 * hour) (window_seconds (usdc_limit ''25'' 3600)) = Some (t0 + hour)
   \<and> totalSpent (Prim (JStr ''USDC'')) (Some (t0 + hour)) [spend ''a1'' None (JStr ''20'')]
        (Finite 0) = Finite 20
   \<and> spec_windowSpend ''USDC'' (t0 + hour) [spend ''a1'' None (JStr ''20'')] = 0
   \<and> spec_withinLimit ''USDC'' ''10'' (usdc_rule ''25'' 3600) [spend ''a1'' None (JStr ''20'')]
        (t0 + 2 * hour)"
  by (simp add: spec_eval policy_eval example_defs parse_eval rnd_eval)

text \<open>
  Window expiry, on a dated history: a spend of 20 against a limit of 25 per hour blocks a
  request of 25 up to the end of the hour and no longer after it.
\<close>

lemma window_expiry_example:
  "isWithinLimits (Prim (JStr ''USDC'')) ''25'' (usdc_limit ''25'' 3600)
     (store_of (usdc_limit ''25'' 3600) [spend ''a1'' (Some t0) (JStr ''20'')]) ''a1'' (t0 + hour)
     = Inr False
   \<and> isWithinLimits (Prim (JStr ''USDC'')) ''25'' (usdc_limit ''25'' 3600)
     (store_of (usdc_limit ''25'' 3600) [spend ''a1'' (Some t0) (JStr ''20'')]) ''a1''
     (t0 + hour + 1)
     = Inr True"
  by (simp add: policy_eval example_defs parse_eval rnd_eval)

subsection \<open>C4: decimal amounts\<close>

text \<open>
  Claim C4: the sum and the comparison against the maximum are computed as exact decimal
  values, so that additions of amounts such as 0.1 and 0.2 against a limit of 0.3 decide
  as decimal arithmetic does.

  \<^verbatim>\<open>LimitConfig.amount\<close> is declared a string \<^verbatim>\<open>to avoid floating-point issues\<close>, but
  \<^verbatim>\<open>isWithinLimits\<close> turns every amount into a binary floating-point number with
  \<^verbatim>\<open>parseFloat\<close> and adds and compares those. With an allowed spend of 0.1 in the window
  and a limit of 0.3, a request of 0.2 is denied: the decimal sum is 0.3 and within the
  limit, the computed sum is the next binary64 number above the one that \<^verbatim>\<open>0.3\<close>
  parses to.
\<close>

theorem decimal_sum_rounded_in_binary:
  "isWithinLimits (Prim (JStr ''USDC'')) ''0.2'' (usdc_limit ''0.3'' 86400)
     (store_of (usdc_limit ''0.3'' 86400) [spend ''a1'' (Some t0) (JStr ''0.1'')]) ''a1''
     (t0 + hour)
     = Inr False
   \<and> literal_value ''0.1'' + literal_value ''0.2'' \<le> literal_value ''0.3''
   \<and> fadd (fadd (Finite 0) (parseFloat ''0.1'')) (parseFloat ''0.2'')
       = Finite (5404319552844596 / 2 ^ 54)
   \<and> parseFloat ''0.3'' = Finite (5404319552844595 / 2 ^ 54)"
  by (simp add: policy_eval example_defs parse_eval rnd_eval)

subsection \<open>C5: unparsable amounts in the history\<close>

text \<open>
  Claim C5: an allowed entry whose amount is absent or cannot be parsed as a number
  contributes zero to the running sum, and the remaining entries decide the verdict as if
  it were not there.

  For an absent amount the code does that (\<open>absent_amount_adds_nothing\<close>). For an
  unparsable one it wraps \<^verbatim>\<open>parseFloat\<close> in a \<^verbatim>\<open>try\<close> whose handler skips the entry, but
  \<^verbatim>\<open>parseFloat\<close> never throws: it returns \<^verbatim>\<open>NaN\<close>, the running total becomes \<^verbatim>\<open>NaN\<close>
  and stays so, and the final comparison is false. One allowed entry with the amount
  \<^verbatim>\<open>abc\<close> inside the window makes the check deny a request of 10 against a limit of 25,
  which it permits on the history without that entry.
\<close>

theorem unparsable_amount_blocks_asset:
  "isWithinLimits (Prim (JStr ''USDC'')) ''10'' (usdc_limit ''25'' 86400)
     (store_of (usdc_limit ''25'' 86400) [spend ''a1'' (Some t0) (JStr ''abc'')]) ''a1''
     (t0 + hour)
     = Inr False
   \<and> isWithinLimits (Prim (JStr ''USDC'')) ''10'' (usdc_limit ''25'' 86400)
     (store_of (usdc_limit ''25'' 86400) []) ''a1'' (t0 + hour)
     = Inr True
   \<and> parseFloat (js_String (Prim (JStr ''abc''))) = NaN
   \<and> totalSpent (Prim (JStr ''USDC'')) (Some (t0 - 23 * hour))
        [spend ''a1'' (Some t0) (JStr ''abc'')] (Finite 0) = NaN"
  by (simp add: policy_eval example_defs parse_eval rnd_eval)

subsection \<open>C6: unknown action types\<close>

text \<open>
  Claim C6: if no allow-rule has the request's action type, \<^verbatim>\<open>authorize\<close> returns false
  with the reason \<^verbatim>\<open>action not in allowlist\<close>.

  The reason the code logs is spelled \<^verbatim>\<open>Action not in allowlist\<close>, with a capital.
\<close>

theorem unlisted_action_reason_counterexample:
  "verdict (authorize (agent_of (usdc_limit ''25'' 86400) []) ''withdraw'' (usdc ''10'')
              (t0 + 2 * hour) (t0 + 2 * hour)) = Some False
   \<and> reason (last (storedLogs (agentAfter
        (authorize (agent_of (usdc_limit ''25'' 86400) []) ''withdraw'' (usdc ''10'')
              (t0 + 2 * hour) (t0 + 2 * hour)))))
       = Some ''Action not in allowlist''
   \<and> reason (last (storedLogs (agentAfter
        (authorize (agent_of (usdc_limit ''25'' 86400) []) ''withdraw'' (usdc ''10'')
              (t0 + 2 * hour) (t0 + 2 * hour)))))
       \<noteq> Some ''action not in allowlist''"
  by (simp add: observe_eval agent_eval policy_eval example_defs)

text \<open>
  Claim C6 as amended: for every agent whose configuration loads, every action type that
  no allow-rule names and every parameter bag, \<^verbatim>\<open>authorize\<close> does not return true; and
  when the store can be read and written it returns false and appends one entry, a denial
  with the reason \<^verbatim>\<open>Action not in allowlist\<close>.
\<close>

theorem authorize_unlisted_action_denied:
  assumes "loadConfig ag = Inr (c, ag1)"
    and "\<forall>rule \<in> set (allow_rules c). action_type rule \<noteq> actionType"
  shows "verdict (authorize ag actionType ps now stamp) \<noteq> Some True
     \<and> (content (storage ag) = Inr d \<and> write_error (storage ag) = None \<longrightarrow>
          (\<exists>ag'. authorize ag actionType ps now stamp = Inr (False, ag')
             \<and> storedLogs ag' = logs d @ [decisionEntry ag actionType ps False
                                             (Some ''Action not in allowlist'') stamp]))"
proof -
  have no: "\<not> isActionAllowedByRules actionType ps (allow_rules c)"
    using assms(2) by (auto simp add: isActionAllowedByRules_def filter_empty_conv)
  have st: "storage ag1 = storage ag" and aid: "agentId ag1 = agentId ag"
    using loadConfig_keeps[OF assms(1)] by simp_all
  have t: "tryAuthorize ag actionType ps now stamp =
        decided ag1 actionType ps False (Some ''Action not in allowlist'') stamp"
    using assms(1) no by (simp add: tryAuthorize_def)
  have "verdict (authorize ag actionType ps now stamp) \<noteq> Some True"
  proof (cases "tryAuthorize ag actionType ps now stamp")
    case (Inl x)
    then show ?thesis by (rule authorize_fault_never_allows)
  next
    case (Inr r)
    then have "fst r = False"
      using t by (auto simp add: decided_def split: sum.splits)
    then show ?thesis
      using authorize_passes_try[OF Inr] by (cases r) (simp add: verdict_def)
  qed
  moreover have "\<exists>ag'. authorize ag actionType ps now stamp = Inr (False, ag')
             \<and> storedLogs ag' = logs d @ [decisionEntry ag actionType ps False
                                             (Some ''Action not in allowlist'') stamp]"
    if h: "content (storage ag) = Inr d" "write_error (storage ag) = None"
  proof -
    have h1: "content (storage ag1) = Inr d" "write_error (storage ag1) = None"
      using h st by simp_all
    have entry: "decisionEntry ag1 = decisionEntry ag"
      by (simp add: decisionEntry_def fun_eq_iff aid)
    obtain ag' where
      "decided ag1 actionType ps False (Some ''Action not in allowlist'') stamp
       = Inr (False, ag')"
      and l: "storedLogs ag' = logs d @ [decisionEntry ag actionType ps False
            (Some ''Action not in allowlist'') stamp]"
      using decided_healthy[OF h1, of actionType ps False "Some ''Action not in allowlist''" stamp]
      by (auto simp add: entry)
    then have "authorize ag actionType ps now stamp = Inr (False, ag')"
      using t by (intro authorize_passes_try) simp
    then show ?thesis using l by blast
  qed
  ultimately show ?thesis by blast
qed

theorem authorize_unlisted_action_denied_witness:
  "loadConfig (agent_of (usdc_limit ''25'' 86400) [])
     = Inr (demo_config (usdc_limit ''25'' 86400), agent_of (usdc_limit ''25'' 86400) [])
   \<and> list_all (\<lambda>rule. action_type rule \<noteq> ''withdraw'')
        (allow_rules (demo_config (usdc_limit ''25'' 86400)))
   \<and> verdict (authorize (agent_of (usdc_limit ''25'' 86400) []) ''withdraw'' (usdc ''10'')
        (t0 + 2 * hour) (t0 + 2 * hour)) \<noteq> Some True
   \<and> (\<exists>ag'. authorize (agent_of (usdc_limit ''25'' 86400) []) ''withdraw'' (usdc ''10'')
               (t0 + 2 * hour) (t0 + 2 * hour) = Inr (False, ag')
          \<and> storedLogs ag' =
              [decisionEntry (agent_of (usdc_limit ''25'' 86400) []) ''withdraw'' (usdc ''10'')
                 False (Some ''Action not in allowlist'') (t0 + 2 * hour)])"
proof -
  let ?ag = "agent_of (usdc_limit ''25'' 86400) []"
  let ?c = "demo_config (usdc_limit ''25'' 86400)"
  have l: "loadConfig ?ag = Inr (?c, ?ag)"
    by (simp add: loadConfig_def agent_of_def)
  have r: "\<forall>rule \<in> set (allow_rules ?c). action_type rule \<noteq> ''withdraw''"
    by (simp add: demo_config_def)
  have s: "content (storage ?ag) = Inr \<lparr>agents = [(''a1'', ?c)], logs = []\<rparr>"
    "write_error (storage ?ag) = None"
    by (simp_all add: agent_of_def store_of_def)
  show ?thesis
    using authorize_unlisted_action_denied[OF l r, of "usdc ''10''" "t0 + 2 * hour"
        "t0 + 2 * hour" "\<lparr>agents = [(''a1'', ?c)], logs = []\<rparr>"] l r s
    by (simp add: list_all_iff)
qed

subsection \<open>C7: time windows\<close>

text \<open>
  Claim C7: for a token of the shape positive integer followed by \<^verbatim>\<open>h\<close> or \<^verbatim>\<open>d\<close> (either
  case), \<^verbatim>\<open>parseTimeWindow\<close> returns that many times 3600 or 86400 seconds; for every
  other token (missing unit, zero or negative count, extra characters, unknown unit, the
  empty string) it fails with an error that carries the token.

  A zero count is not refused: the pattern asks for digits, and \<^verbatim>\<open>0h\<close> is a window of no
  seconds.
\<close>

theorem zero_hours_is_accepted:
  "parseTimeWindow ''0h'' = Inr (Finite 0)"
  by (simp add: parseTimeWindow_def window_match_def toLowerCase_def parseInt10_def
        is_digit_def dec_value_def digit_val_def rnd_def)

text \<open>
  Claim C7 as amended: for a token made of one or more decimal digits followed by one of
  \<^verbatim>\<open>h\<close>, \<^verbatim>\<open>H\<close>, \<^verbatim>\<open>d\<close>, \<^verbatim>\<open>D\<close>, \<^verbatim>\<open>parseTimeWindow\<close> returns the digits' value times 3600
  (for hours) or 86400 (for days), computed in the program's numbers and therefore exact
  as long as the product is below \<open>2 ^ 53\<close>; a count of zero is accepted and gives 0. For
  every other token it fails with the error whose message quotes the token.
\<close>

theorem parseTimeWindow_shapes:
  "(ds \<noteq> [] \<and> list_all is_digit ds \<and> u \<in> set ''hH'' \<longrightarrow>
      parseTimeWindow (ds @ [u]) = Inr (fmul (rnd (of_nat (dec_value ds))) (Finite 3600))
      \<and> (dec_value ds * 3600 < 2 ^ 53 \<longrightarrow>
           parseTimeWindow (ds @ [u]) = Inr (Finite (of_nat (dec_value ds * 3600)))))
   \<and> (ds \<noteq> [] \<and> list_all is_digit ds \<and> u \<in> set ''dD'' \<longrightarrow>
      parseTimeWindow (ds @ [u]) = Inr (fmul (rnd (of_nat (dec_value ds))) (Finite 86400))
      \<and> (dec_value ds * 86400 < 2 ^ 53 \<longrightarrow>
           parseTimeWindow (ds @ [u]) = Inr (Finite (of_nat (dec_value ds * 86400)))))
   \<and> (\<not> (\<exists>ds u. w = ds @ [u] \<and> ds \<noteq> [] \<and> list_all is_digit ds \<and> u \<in> set ''hdHD'') \<longrightarrow>
      parseTimeWindow w = Inl (InvalidTimeWindow w))"
proof (intro conjI impI)
  assume a: "ds \<noteq> [] \<and> list_all is_digit ds \<and> u \<in> set ''hH''"
  then have m: "window_match (ds @ [u]) = Some (ds, u)"
    by (intro window_match_shape) auto
  have l: "toLowerCase u = CHR ''h''" using a by (auto simp add: toLowerCase_units)
  show r: "parseTimeWindow (ds @ [u]) = Inr (fmul (rnd (of_nat (dec_value ds))) (Finite 3600))"
    by (simp add: parseTimeWindow_def m l parseInt10_def)
  assume b: "dec_value ds * 3600 < 2 ^ 53"
  then have "dec_value ds < 2 ^ 53" by simp
  then show "parseTimeWindow (ds @ [u]) = Inr (Finite (of_nat (dec_value ds * 3600)))"
    using fmul_exact[OF b] by (simp add: r rnd_nat)
next
  assume a: "ds \<noteq> [] \<and> list_all is_digit ds \<and> u \<in> set ''dD''"
  then have m: "window_match (ds @ [u]) = Some (ds, u)"
    by (intro window_match_shape) auto
  have l: "toLowerCase u = CHR ''d''" using a by (auto simp add: toLowerCase_units)
  show r: "parseTimeWindow (ds @ [u]) = Inr (fmul (rnd (of_nat (dec_value ds))) (Finite 86400))"
    by (simp add: parseTimeWindow_def m l parseInt10_def)
  assume b: "dec_value ds * 86400 < 2 ^ 53"
  then have "dec_value ds < 2 ^ 53" by simp
  then show "parseTimeWindow (ds @ [u]) = Inr (Finite (of_nat (dec_value ds * 86400)))"
    using fmul_exact[OF b] by (simp add: r rnd_nat)
next
  assume "\<not> (\<exists>ds u. w = ds @ [u] \<and> ds \<noteq> [] \<and> list_all is_digit ds \<and> u \<in> set ''hdHD'')"
  then show "parseTimeWindow w = Inl (InvalidTimeWindow w)"
    by (simp add: parseTimeWindow_def window_match_None)
qed

theorem parseTimeWindow_shapes_witness:
  "parseTimeWindow ''24h'' = Inr (Finite 86400)
   \<and> parseTimeWindow ''7D'' = Inr (Finite 604800)
   \<and> parseTimeWindow ''abc'' = Inl (InvalidTimeWindow ''abc'')
   \<and> parseTimeWindow ''-5h'' = Inl (InvalidTimeWindow ''-5h'')
   \<and> parseTimeWindow ''5x'' = Inl (InvalidTimeWindow ''5x'')
   \<and> parseTimeWindow '''' = Inl (InvalidTimeWindow '''')
   \<and> parseTimeWindow ''h'' = Inl (InvalidTimeWindow ''h'')
   \<and> parseTimeWindow ''1.5h'' = Inl (InvalidTimeWindow ''1.5h'')
   \<and> parseTimeWindow ''24h '' = Inl (InvalidTimeWindow ''24h '')"
proof -
  have d: "dec_value ''24'' * 3600 = 86400" "dec_value ''7'' * 86400 = 604800"
    by (simp_all add: dec_value_def digit_val_def)
  have "''24'' \<noteq> [] \<and> list_all is_digit ''24'' \<and> CHR ''h'' \<in> set ''hH''"
    and "dec_value ''24'' * 3600 < 2 ^ 53"
    by (simp_all add: is_digit_def d)
  then have "parseTimeWindow (''24'' @ [CHR ''h''])
             = Inr (Finite (of_nat (dec_value ''24'' * 3600)))"
    using parseTimeWindow_shapes[of "''24''" "CHR ''h''" "[]"] by blast
  then have h: "parseTimeWindow ''24h'' = Inr (Finite 86400)"
    by (simp add: d)
  have "''7'' \<noteq> [] \<and> list_all is_digit ''7'' \<and> CHR ''D'' \<in> set ''dD''"
    and "dec_value ''7'' * 86400 < 2 ^ 53"
    by (simp_all add: is_digit_def d)
  then have "parseTimeWindow (''7'' @ [CHR ''D''])
             = Inr (Finite (of_nat (dec_value ''7'' * 86400)))"
    using parseTimeWindow_shapes[of "''7''" "CHR ''D''" "[]"] by blast
  then have dd: "parseTimeWindow ''7D'' = Inr (Finite 604800)"
    by (simp add: d)
  have bad: "parseTimeWindow w = Inl (InvalidTimeWindow w)"
    if "w = [] \<or> butlast w = [] \<or> \<not> list_all is_digit (butlast w)
        \<or> last w \<notin> set ''hdHD''"
    for w
  proof -
    have "\<not> (\<exists>ds u. w = ds @ [u] \<and> ds \<noteq> [] \<and> list_all is_digit ds \<and> u \<in> set ''hdHD'')"
      by (rule no_window_shape[OF that])
    then show ?thesis
      using parseTimeWindow_shapes[of "[]" "CHR ''h''" w] by blast
  qed
  show ?thesis
    by (intro conjI h dd bad) (simp_all add: is_digit_def)
qed

subsection \<open>C8: the rule matcher\<close>

text \<open>
  Claim C8: the rule matcher returns true if and only if some rule with the request's
  action type has every one of its constraint keys present in the parameter bag with a
  string form equal to that of the constraint's value; a rule without constraints matches
  any bag, and a constrained rule never matches a request in which a constraint key
  differs or is absent.

  The matcher does not test whether a key is present: it reads \<^verbatim>\<open>params[key]\<close> and
  compares string forms. For a key that the bag lacks and \<^verbatim>\<open>Object.prototype\<close> does not
  have either, the value read is \<^verbatim>\<open>undefined\<close>, and a constraint whose string form is
  \<^verbatim>\<open>undefined\<close> is met by a bag without the key.
\<close>

theorem absent_key_matches_undefined:
  "isActionAllowedByRules ''swap'' []
     [\<lparr>action_type = ''swap'', constraints = [(''protocol'', JStr ''undefined'')]\<rparr>]
   \<and> map_of ([] :: jsobject) ''protocol'' = None"
  by (simp add: isActionAllowedByRules_def ruleMatches_def get_def read_property_def
        object_prototype_def)

text \<open>
  Claim C8 as amended: the rule matcher returns true if and only if some rule with the
  request's action type has, for every one of its constraint keys, the string form of the
  value read from the bag under that key equal to the string form of the constraint's
  value. The value read is the bag's own value if the bag has the key; otherwise it is the
  member of \<^verbatim>\<open>Object.prototype\<close> of that name, if there is one (\<^verbatim>\<open>constructor\<close>,
  \<^verbatim>\<open>toString\<close>, \<^verbatim>\<open>valueOf\<close>, \<^verbatim>\<open>hasOwnProperty\<close>, \<^verbatim>\<open>__proto__\<close> and the like), and
  \<^verbatim>\<open>undefined\<close> if there is none. So a rule without constraints matches any bag for its
  action type, a constrained rule never matches a request in which the string form under
  a constraint key differs, and a key that is absent from the bag and from
  \<^verbatim>\<open>Object.prototype\<close> matches only a constraint whose string form is \<^verbatim>\<open>undefined\<close>.
\<close>

theorem isActionAllowedByRules_iff:
  "(isActionAllowedByRules actionType ps rules \<longleftrightarrow>
      (\<exists>rule \<in> set rules. action_type rule = actionType \<and>
         (\<forall>(key, expectedValue) \<in> set (constraints rule).
             js_String (get ps key) = js_String (Prim expectedValue))))
   \<and> get ps k =
       (case map_of ps k of
          Some v \<Rightarrow> Prim v
        | None \<Rightarrow> (case map_of object_prototype k of
                     Some m \<Rightarrow> Builtin m
                   | None \<Rightarrow> Prim JUndefined))"
  by (auto simp add: isActionAllowedByRules_def anyRuleMatches_iff ruleMatches_iff
        filter_empty_conv get_def read_property_def split: option.splits)

theorem isActionAllowedByRules_iff_witness:
  "\<not> isActionAllowedByRules ''swap''
        [(''token'', JStr ''USDC''), (''amount'', JStr ''10''), (''protocol'', JStr ''SushiSwap'')]
        (allow_rules (demo_config (usdc_limit ''25'' 86400)))
   \<and> isActionAllowedByRules ''swap''
        [(''token'', JStr ''USDC''), (''amount'', JStr ''10''), (''protocol'', JStr ''UniswapV3'')]
        (allow_rules (demo_config (usdc_limit ''25'' 86400)))
   \<and> \<not> isActionAllowedByRules ''swap'' [(''token'', JStr ''USDC''), (''amount'', JStr ''10'')]
        (allow_rules (demo_config (usdc_limit ''25'' 86400)))
   \<and> isActionAllowedByRules ''transfer'' [(''anything'', JBool True)]
        (allow_rules (demo_config (usdc_limit ''25'' 86400)))
   \<and> isActionAllowedByRules ''bridge'' [(''chain_id'', JStr ''5'')]
        [\<lparr>action_type = ''bridge'', constraints = [(''chain_id'', JNum (Finite 5))]\<rparr>]
   \<and> \<not> isActionAllowedByRules ''swap'' []
        [\<lparr>action_type = ''swap'', constraints = [(''constructor'', JStr ''undefined'')]\<rparr>]
   \<and> get [] ''constructor'' = Builtin ObjectConstructor
   \<and> isActionAllowedByRules ''swap'' []
        [\<lparr>action_type = ''swap'',
          constraints = [(''toString'', JStr ''function toString() { [native code] }'')]\<rparr>]
   \<and> isActionAllowedByRules ''swap'' [(''constructor'', JUndefined)]
        [\<lparr>action_type = ''swap'', constraints = [(''constructor'', JStr ''undefined'')]\<rparr>]"
proof -
  have g: "get ps k =
       (case map_of ps k of
          Some v \<Rightarrow> Prim v
        | None \<Rightarrow> (case map_of object_prototype k of
                     Some m \<Rightarrow> Builtin m
                   | None \<Rightarrow> Prim JUndefined))" for ps k
    using isActionAllowedByRules_iff[of "[]" ps "[]" k] by blast
  have m: "isActionAllowedByRules actionType ps rules \<longleftrightarrow>
      (\<exists>rule \<in> set rules. action_type rule = actionType \<and>
         (\<forall>(key, expectedValue) \<in> set (constraints rule).
             js_String (get ps key) = js_String (Prim expectedValue)))" for actionType ps rules
    using isActionAllowedByRules_iff[of actionType ps rules "[]"] by blast
  show ?thesis
    by (simp add: m g demo_config_def object_prototype_def to_string_eval rnd_eval)
qed

subsection \<open>C9: replay\<close>

text \<open>
  Claim C9: two runs of \<^verbatim>\<open>authorize\<close> with the same stored agent configuration, the
  same decision-log history, the same clock value and the same request return the same
  verdict.

  The verdict depends on nothing else. Take two agents, in stores that can be read and
  written, whose configurations load with the same allow-rules and limits and whose
  histories, as \<^verbatim>\<open>getLogs\<close> returns them, are equal: for the same request at the same
  clock value both calls return, with the same verdict, whatever else differs (the other
  agents and their entries in the store, the wallet, name and metadata, whether the
  configuration was cached, the time the decision is logged).
\<close>

theorem authorize_replay:
  assumes "loadConfig a1 = Inr (c1, a1')" and "loadConfig a2 = Inr (c2, a2')"
    and "allow_rules c1 = allow_rules c2" and "limits c1 = limits c2"
    and "getLogs (storage a1) (agentId a1) None = Inr history"
    and "getLogs (storage a2) (agentId a2) None = Inr history"
    and "write_error (storage a1) = None" and "write_error (storage a2) = None"
  shows "verdict (authorize a1 actionType ps now stamp1)
         = verdict (authorize a2 actionType ps now stamp2)
     \<and> verdict (authorize a1 actionType ps now stamp1) \<noteq> None"
proof -
  obtain d1 where d1: "content (storage a1) = Inr d1"
    using assms(5) by (auto simp add: getLogs_def readData_def split: sum.splits)
  obtain d2 where d2: "content (storage a2) = Inr d2"
    using assms(6) by (auto simp add: getLogs_def readData_def split: sum.splits)
  have same: "isWithinLimits a amt limitCfg (storage a1) (agentId a1) now
              = isWithinLimits a amt limitCfg (storage a2) (agentId a2) now" for a amt limitCfg
    by (rule isWithinLimits_history) (simp add: assms(5,6))
  have "limitCheck c1 (storage a1) (agentId a1) ps now
        = limitCheck c2 (storage a2) (agentId a2) ps now"
    by (simp add: limitCheck_def assms(4) same split: property.splits)
  then show ?thesis
    using verdict_authorize[OF assms(1) d1 assms(7), of actionType ps now stamp1]
      verdict_authorize[OF assms(2) d2 assms(8), of actionType ps now stamp2] assms(3)
    by simp
qed

theorem authorize_replay_witness:
  "verdict (authorize (agent_of (usdc_limit ''25'' 86400)
                [spend ''a1'' (Some t0) (JStr ''10''), spend ''a1'' (Some (t0 + hour)) (JStr ''5'')])
              ''transfer'' (usdc ''10'') (t0 + 2 * hour) (t0 + 2 * hour))
     = verdict (authorize \<lparr>agentId = ''a1'', storage = busy_store, config = None\<rparr>
              ''transfer'' (usdc ''10'') (t0 + 2 * hour) (t0 + 3 * hour))
   \<and> verdict (authorize (agent_of (usdc_limit ''25'' 86400)
                [spend ''a1'' (Some t0) (JStr ''10''), spend ''a1'' (Some (t0 + hour)) (JStr ''5'')])
              ''transfer'' (usdc ''10'') (t0 + 2 * hour) (t0 + 2 * hour)) = Some True
   \<and> verdict (authorize (agent_of (usdc_limit ''25'' 86400)
                [spend ''a1'' (Some t0) (JStr ''10''), spend ''a1'' (Some (t0 + hour)) (JStr ''5'')])
              ''transfer'' (usdc ''11'') (t0 + 2 * hour) (t0 + 2 * hour))
     = verdict (authorize \<lparr>agentId = ''a1'', storage = busy_store, config = None\<rparr>
              ''transfer'' (usdc ''11'') (t0 + 2 * hour) (t0 + 3 * hour))
   \<and> verdict (authorize \<lparr>agentId = ''a1'', storage = busy_store, config = None\<rparr>
              ''transfer'' (usdc ''11'') (t0 + 2 * hour) (t0 + 3 * hour)) = Some False"
proof -
  let ?h = "[spend ''a1'' (Some t0) (JStr ''10''), spend ''a1'' (Some (t0 + hour)) (JStr ''5'')]"
  let ?l = "usdc_limit ''25'' 86400"
  let ?a1 = "agent_of ?l ?h"
  let ?a2 = "\<lparr>agentId = ''a1'', storage = busy_store, config = None\<rparr>"
  have l1: "loadConfig ?a1 = Inr (demo_config ?l, ?a1)"
    by (simp add: loadConfig_def agent_of_def)
  have l2: "loadConfig ?a2 = Inr (demo_config ?l, ?a2\<lparr>config := Some (demo_config ?l)\<rparr>)"
    by (simp add: loadConfig_def loadAgent_def readData_def busy_store_def)
  have g1: "getLogs (storage ?a1) (agentId ?a1) None = Inr ?h"
    by (simp add: getLogs_def readData_def agent_of_def store_of_def spend_def)
  have g2: "getLogs (storage ?a2) (agentId ?a2) None = Inr ?h"
    by (simp add: getLogs_def readData_def busy_store_def spend_def)
  have w: "write_error (storage ?a1) = None" "write_error (storage ?a2) = None"
    by (simp_all add: agent_of_def store_of_def busy_store_def)
  have t: "verdict (authorize ?a1 ''transfer'' (usdc ''10'') (t0 + 2 * hour) (t0 + 2 * hour))
           = Some True"
    by (simp add: verdict_def agent_eval policy_eval example_defs parse_eval rnd_eval)
  have f: "verdict (authorize ?a1 ''transfer'' (usdc ''11'') (t0 + 2 * hour) (t0 + 2 * hour))
           = Some False"
    by (simp add: verdict_def agent_eval policy_eval example_defs parse_eval rnd_eval
          to_string_eval)
  show ?thesis
    using authorize_replay[OF l1 l2 refl refl g1 g2 w, of "''transfer''" "usdc ''10''"
        "t0 + 2 * hour" "t0 + 2 * hour" "t0 + 3 * hour"]
      authorize_replay[OF l1 l2 refl refl g1 g2 w, of "''transfer''" "usdc ''11''"
        "t0 + 2 * hour" "t0 + 2 * hour" "t0 + 3 * hour"] t f
    by simp
qed

subsection \<open>C10: requests that skip the limit check\<close>

text \<open>
  Claim C10: if the parameters have no amount, or the amount is the number 0, the empty
  string or \<^verbatim>\<open>null\<close>, or there is neither an asset nor a token, \<^verbatim>\<open>authorize\<close> performs
  no spend-limit check and returns true whenever the allowlist matches, even when a limit
  is configured for the asset: only a truthy amount together with a truthy asset-or-token
  triggers the check.

  When the amount or the asset-or-token is falsy, the second check of \<^verbatim>\<open>authorize\<close> is
  nothing but the final \<^verbatim>\<open>logDecision(..., true)\<close>, and for an agent whose configuration
  loads, in a store that can be read and written, the call returns true as soon as the
  allowlist matches. In the witness the limit of 25 is used up, a request with the amount
  1 is denied, and the requests without an amount, with the amounts \<^verbatim>\<open>0\<close>, \<^verbatim>\<open>''\<close> and
  \<^verbatim>\<open>null\<close>, and without an asset are allowed.
\<close>

theorem authorize_skips_limit_check:
  assumes "loadConfig ag = Inr (c, ag1)"
    and "content (storage ag) = Inr d" and "write_error (storage ag) = None"
    and "isActionAllowedByRules actionType ps (allow_rules c)"
    and "\<not> (truthy (get ps ''amount'') \<and> truthy (requestAsset ps))"
  shows "checkLimits ag1 c actionType ps now stamp = decided ag1 actionType ps True None stamp
     \<and> verdict (authorize ag actionType ps now stamp) = Some True"
  using verdict_authorize[OF assms(1-3), of actionType ps now stamp] assms(4,5)
  by (auto simp add: limitCheck_def checkLimits_def)

theorem authorize_skips_limit_check_witness:
  "read_property (limits (demo_config (usdc_limit ''25'' 86400))) ''USDC''
     = Own (usdc_limit ''25'' 86400)
   \<and> isWithinLimits (Prim (JStr ''USDC'')) ''1'' (usdc_limit ''25'' 86400)
        (store_of (usdc_limit ''25'' 86400) [spend ''a1'' (Some t0) (JStr ''25'')]) ''a1''
        (t0 + hour) = Inr False
   \<and> verdict (authorize (agent_of (usdc_limit ''25'' 86400) [spend ''a1'' (Some t0) (JStr ''25'')])
        ''transfer'' [(''asset'', JStr ''USDC'')] (t0 + hour) (t0 + hour)) = Some True
   \<and> verdict (authorize (agent_of (usdc_limit ''25'' 86400) [spend ''a1'' (Some t0) (JStr ''25'')])
        ''transfer'' [(''asset'', JStr ''USDC''), (''amount'', JNum (Finite 0))]
        (t0 + hour) (t0 + hour)) = Some True
   \<and> verdict (authorize (agent_of (usdc_limit ''25'' 86400) [spend ''a1'' (Some t0) (JStr ''25'')])
        ''transfer'' [(''asset'', JStr ''USDC''), (''amount'', JStr '''')]
        (t0 + hour) (t0 + hour)) = Some True
   \<and> verdict (authorize (agent_of (usdc_limit ''25'' 86400) [spend ''a1'' (Some t0) (JStr ''25'')])
        ''transfer'' [(''asset'', JStr ''USDC''), (''amount'', JNull)]
        (t0 + hour) (t0 + hour)) = Some True
   \<and> verdict (authorize (agent_of (usdc_limit ''25'' 86400) [spend ''a1'' (Some t0) (JStr ''25'')])
        ''transfer'' [(''amount'', JStr ''1000000'')] (t0 + hour) (t0 + hour)) = Some True
   \<and> verdict (authorize (agent_of (usdc_limit ''25'' 86400) [spend ''a1'' (Some t0) (JStr ''25'')])
        ''transfer'' (usdc ''1'') (t0 + hour) (t0 + hour)) = Some False"
proof -
  let ?l = "usdc_limit ''25'' 86400"
  let ?h = "[spend ''a1'' (Some t0) (JStr ''25'')]"
  let ?ag = "agent_of ?l ?h"
  have l: "loadConfig ?ag = Inr (demo_config ?l, ?ag)"
    by (simp add: loadConfig_def agent_of_def)
  have s: "content (storage ?ag) = Inr \<lparr>agents = [(''a1'', demo_config ?l)], logs = ?h\<rparr>"
    and w: "write_error (storage ?ag) = None"
    by (simp_all add: agent_of_def store_of_def)
  have r: "isActionAllowedByRules ''transfer'' ps (allow_rules (demo_config ?l))" for ps
    by (simp add: isActionAllowedByRules_def ruleMatches_def demo_config_def)
  have skip: "verdict (authorize ?ag ''transfer'' ps (t0 + hour) (t0 + hour)) = Some True"
    if "\<not> (truthy (get ps ''amount'') \<and> truthy (requestAsset ps))" for ps
    using authorize_skips_limit_check[OF l s w r that] by simp
  have lim: "read_property (limits (demo_config ?l)) ''USDC'' = Own ?l"
    by (simp add: demo_config_def read_property_def)
  have full: "isWithinLimits (Prim (JStr ''USDC'')) ''1'' ?l (store_of ?l ?h) ''a1'' (t0 + hour)
              = Inr False"
    by (simp add: policy_eval example_defs parse_eval rnd_eval)
  have deny: "verdict (authorize ?ag ''transfer'' (usdc ''1'') (t0 + hour) (t0 + hour))
              = Some False"
    by (simp add: verdict_def agent_eval policy_eval example_defs parse_eval rnd_eval
          to_string_eval)
  show ?thesis
    by (intro conjI lim full deny skip)
      (simp_all add: get_def requestAsset_def js_or_def read_property_def object_prototype_def)
qed

end
